theory Spec2Isabelle
  imports Complex_Main "HOL-Library.Word"
begin

section \<open>Values, errors and the world\<close>

text \<open>
  The function under study is \<^verbatim>\<open>ebisuzaki(x, y, level=0.05, nsim=1000, seed=None)\<close> of
  \<^verbatim>\<open>03_monte_carlo/correlation_and_monte_carlo.ipynb\<close>.

  Python exceptions are values of \<open>error\<close>; the one the function raises itself is
  \<^verbatim>\<open>ValueError("Size of x and y must be the same")\<close>, the others come out of the numpy
  calls it makes.

  A numpy float is either a finite number or NaN. In the arrays, finite numbers are
  idealised as reals: no rounding and no overflow. A division of arrays by zero raises
  nothing in numpy: it gives NaN for \<open>0 / 0\<close> and an infinity for any other numerator,
  with a warning. Infinities are left out of the model, and \<open>fdiv\<close> gives NaN for every
  zero divisor, because in exact arithmetic the function only ever divides \<open>0\<close> by \<open>0\<close>:
  where a standard deviation is 0 the deviations it divides are 0 too (the lemmas
  \<open>zero_std_zero_deviation\<close> and \<open>zero_variance_zero_covariance\<close>). What is stated of the
  values in the arrays is therefore a statement of exact arithmetic: inputs of the size of
  \<open>1e200\<close>, whose squares overflow, are outside it. Which error a call raises, how many
  elements it returns and which element it reads do not depend on the values; the one
  place where rounding decides that, the index of the critical value, is modelled with
  the rounding of doubles.
\<close>

datatype error = ValueError string | IndexError string

datatype float64 = Fin real | NaN

datatype complex128 = CFin complex | CNaN

datatype out_line = Text string | Report string float64

text \<open>
  The legacy global generator of numpy, as far as the function uses it:
  \<^verbatim>\<open>np.random.seed(s)\<close> sets a state that depends on \<open>s\<close> only (numpy accepts the
  integers from 0 to 2**32 - 1, hence the word), \<^verbatim>\<open>np.random.seed(None)\<close> takes a state
  from the operating system's entropy, and a draw returns a double of [0, 1) and the next
  state. The generator's algorithm is a parameter.
\<close>

record ('g, 'e) np_random =
  rng_seed :: "32 word \<Rightarrow> 'g"
  rng_fresh :: "'e \<Rightarrow> 'g \<times> 'e"
  rng_double :: "'g \<Rightarrow> real \<times> 'g"

record ('g, 'e) world =
  rng :: 'g
  entropy :: 'e
  stdout :: "out_line list"

section \<open>Arithmetic on numpy floats\<close>

fun fadd :: "float64 \<Rightarrow> float64 \<Rightarrow> float64" where
  "fadd (Fin a) (Fin b) = Fin (a + b)"
| "fadd _ _ = NaN"

fun fsub :: "float64 \<Rightarrow> float64 \<Rightarrow> float64" where
  "fsub (Fin a) (Fin b) = Fin (a - b)"
| "fsub _ _ = NaN"

fun fmul :: "float64 \<Rightarrow> float64 \<Rightarrow> float64" where
  "fmul (Fin a) (Fin b) = Fin (a * b)"
| "fmul _ _ = NaN"

fun fdiv :: "float64 \<Rightarrow> float64 \<Rightarrow> float64" where
  "fdiv (Fin a) (Fin b) = (if b = 0 then NaN else Fin (a / b))"
| "fdiv _ _ = NaN"

fun fsqrt :: "float64 \<Rightarrow> float64" where
  "fsqrt (Fin a) = (if a < 0 then NaN else Fin (sqrt a))"
| "fsqrt NaN = NaN"

fun fabs :: "float64 \<Rightarrow> float64" where
  "fabs (Fin a) = Fin \<bar>a\<bar>"
| "fabs NaN = NaN"

text \<open>A comparison with NaN is false.\<close>

fun fgt :: "float64 \<Rightarrow> float64 \<Rightarrow> bool" where
  "fgt (Fin a) (Fin b) = (b < a)"
| "fgt _ _ = False"

text \<open>\<^verbatim>\<open>np.clip(c, -1, 1)\<close>, the last step of \<^verbatim>\<open>np.corrcoef\<close>; NaN stays NaN.\<close>

fun fclip :: "float64 \<Rightarrow> float64" where
  "fclip (Fin a) = Fin (max (- 1) (min 1 a))"
| "fclip NaN = NaN"

fun fcmul :: "float64 \<Rightarrow> complex128 \<Rightarrow> complex128" where
  "fcmul (Fin a) (CFin z) = CFin (complex_of_real a * z)"
| "fcmul _ _ = CNaN"

fun np_sum :: "float64 list \<Rightarrow> float64" where
  "np_sum [] = Fin 0"
| "np_sum (a # as) = fadd a (np_sum as)"

definition np_mean :: "float64 list \<Rightarrow> float64" where
  "np_mean xs = fdiv (np_sum xs) (Fin (real (length xs)))"

text \<open>\<^verbatim>\<open>np.std\<close> with its default \<open>ddof = 0\<close>.\<close>

definition np_std :: "float64 list \<Rightarrow> float64" where
  "np_std xs =
     (let mn = np_mean xs
      in fsqrt (np_mean (map (\<lambda>a. fmul (fsub a mn) (fsub a mn)) xs)))"

text \<open>
  \<^verbatim>\<open>scipy.stats.zscore\<close> of a vector: \<open>(a - mean) / std\<close> with the population standard
  deviation; a vector of equal values becomes a vector of NaNs, an empty one stays empty.
\<close>

definition zscore :: "float64 list \<Rightarrow> float64 list" where
  "zscore xs =
     (let mn = np_mean xs; sd = np_std xs
      in map (\<lambda>a. fdiv (fsub a mn) sd) xs)"

text \<open>
  \<^verbatim>\<open>np.corrcoef(x, y)[0, 1]\<close> for two vectors of one length: the covariance matrix with
  \<open>ddof = 1\<close> (a factor that numpy replaces by 0 when it is not positive), divided by the
  two standard deviations, then clipped into [-1, 1].
\<close>

definition corrcoef :: "float64 list \<Rightarrow> float64 list \<Rightarrow> float64" where
  "corrcoef x y =
     (let dx = map (\<lambda>a. fsub a (np_mean x)) x;
          dy = map (\<lambda>a. fsub a (np_mean y)) y;
          fact = Fin (real (length x - 1));
          cxy = fdiv (np_sum (map2 fmul dx dy)) fact;
          cxx = fdiv (np_sum (map2 fmul dx dx)) fact;
          cyy = fdiv (np_sum (map2 fmul dy dy)) fact
      in fclip (fdiv (fdiv cxy (fsqrt cxx)) (fsqrt cyy)))"

section \<open>The discrete Fourier transform\<close>

definition dft :: "complex list \<Rightarrow> complex list" where
  "dft xs =
     map (\<lambda>k. \<Sum>j<length xs. xs ! j * cis (- (2 * pi * real j * real k / real (length xs))))
       [0..<length xs]"

definition idft :: "complex list \<Rightarrow> complex list" where
  "idft zs =
     map (\<lambda>j. (\<Sum>k<length zs. zs ! k * cis (2 * pi * real j * real k / real (length zs)))
                / complex_of_real (real (length zs)))
       [0..<length zs]"

fun fins :: "float64 list \<Rightarrow> real list option" where
  "fins [] = Some []"
| "fins (Fin a # xs) = map_option ((#) a) (fins xs)"
| "fins (NaN # xs) = None"

fun cfins :: "complex128 list \<Rightarrow> complex list option" where
  "cfins [] = Some []"
| "cfins (CFin z # zs) = map_option ((#) z) (cfins zs)"
| "cfins (CNaN # zs) = None"

text \<open>
  \<^verbatim>\<open>np.fft.fft\<close> and \<^verbatim>\<open>np.fft.ifft\<close>: no data points is an error; a NaN among the
  inputs makes every output NaN.
\<close>

definition np_fft :: "float64 list \<Rightarrow> error + complex128 list" where
  "np_fft xs =
     (if xs = [] then Inl (ValueError ''Invalid number of FFT data points (0) specified.'')
      else case fins xs of
             None \<Rightarrow> Inr (replicate (length xs) CNaN)
           | Some rs \<Rightarrow> Inr (map CFin (dft (map complex_of_real rs))))"

definition np_ifft :: "complex128 list \<Rightarrow> error + complex128 list" where
  "np_ifft zs =
     (if zs = [] then Inl (ValueError ''Invalid number of FFT data points (0) specified.'')
      else case cfins zs of
             None \<Rightarrow> Inr (replicate (length zs) CNaN)
           | Some cs \<Rightarrow> Inr (map CFin (idft cs)))"

fun cabs :: "complex128 \<Rightarrow> float64" where
  "cabs (CFin z) = Fin (cmod z)"
| "cabs CNaN = NaN"

fun creal :: "complex128 \<Rightarrow> float64" where
  "creal (CFin z) = Fin (Re z)"
| "creal CNaN = NaN"

text \<open>\<^verbatim>\<open>np.exp(1j * phases)\<close>.\<close>

definition expj :: "real list \<Rightarrow> complex128 list" where
  "expj ps = map (\<lambda>p. CFin (cis p)) ps"

text \<open>
  The elementwise product \<^verbatim>\<open>mod * np.exp(1j * phases_full)\<close> with numpy's broadcasting
  of one-dimensional arrays: equal lengths, or one of the two of length 1.
\<close>

definition np_multiply :: "float64 list \<Rightarrow> complex128 list \<Rightarrow> error + complex128 list" where
  "np_multiply a b =
     (if length a = length b then Inr (map2 fcmul a b)
      else if length b = 1 then Inr (map (\<lambda>u. fcmul u (hd b)) a)
      else if length a = 1 then Inr (map (fcmul (hd a)) b)
      else Inl (ValueError ''operands could not be broadcast together''))"

section \<open>The random generator\<close>

definition np_random_seed ::
  "('g, 'e) np_random \<Rightarrow> 32 word option \<Rightarrow> ('g, 'e) world \<Rightarrow> ('g, 'e) world" where
  "np_random_seed R seed w =
     (case seed of
        Some s \<Rightarrow> w\<lparr>rng := rng_seed R s\<rparr>
      | None \<Rightarrow> (case rng_fresh R (entropy w) of (g, e) \<Rightarrow> w\<lparr>rng := g, entropy := e\<rparr>))"

fun random_sample :: "('g, 'e) np_random \<Rightarrow> nat \<Rightarrow> 'g \<Rightarrow> real list \<times> 'g" where
  "random_sample R 0 g = ([], g)"
| "random_sample R (Suc k) g =
     (case rng_double R g of (u, g1) \<Rightarrow>
        (case random_sample R k g1 of (us, g2) \<Rightarrow> (u # us, g2)))"

text \<open>\<^verbatim>\<open>np.random.uniform(low, high, size)\<close>; a negative size is an error.\<close>

definition np_random_uniform ::
  "('g, 'e) np_random \<Rightarrow> real \<Rightarrow> real \<Rightarrow> int \<Rightarrow> 'g \<Rightarrow> error + (real list \<times> 'g)" where
  "np_random_uniform R low high sz g =
     (if sz < 0 then Inl (ValueError ''negative dimensions are not allowed'')
      else case random_sample R (nat sz) g of
             (us, g') \<Rightarrow> Inr (map (\<lambda>u. low + (high - low) * u) us, g'))"

section \<open>The surrogates\<close>

text \<open>
  The two branches of the source:
  \<^verbatim>\<open>np.concatenate(([0], phases_x, [0], -phases_x[::-1]))\<close> for an even \<open>n\<close>,
  \<^verbatim>\<open>np.concatenate(([0], phases_x, -phases_x[::-1]))\<close> for an odd one.
\<close>

definition phases_full :: "nat \<Rightarrow> real list \<Rightarrow> real list" where
  "phases_full n phases =
     (if n mod 2 = 0 then [0] @ phases @ [0] @ map uminus (rev phases)
      else [0] @ phases @ map uminus (rev phases))"

text \<open>
  One pass of the loop body: the two draws of \<open>n2 - 1\<close> phases, the full phase arrays, the
  spectra with the random phases, and the real parts of their inverse transforms, which
  become column \<open>i\<close> of \<open>X\<close> and of \<open>Y\<close>. The generator state is returned also when a
  step raises.
\<close>

definition surrogate_pair ::
  "('g, 'e) np_random \<Rightarrow> nat \<Rightarrow> float64 list \<Rightarrow> float64 list \<Rightarrow> 'g
     \<Rightarrow> (error + (float64 list \<times> float64 list)) \<times> 'g" where
  "surrogate_pair R n modx mody g =
     (let n2 = int n div 2 in
      case np_random_uniform R (- pi) pi (n2 - 1) g of
        Inl e \<Rightarrow> (Inl e, g)
      | Inr (phases_x, g1) \<Rightarrow>
      (case np_random_uniform R (- pi) pi (n2 - 1) g1 of
        Inl e \<Rightarrow> (Inl e, g1)
      | Inr (phases_y, g2) \<Rightarrow>
      (case np_multiply modx (expj (phases_full n phases_x)) of
        Inl e \<Rightarrow> (Inl e, g2)
      | Inr recf_x \<Rightarrow>
      (case np_multiply mody (expj (phases_full n phases_y)) of
        Inl e \<Rightarrow> (Inl e, g2)
      | Inr recf_y \<Rightarrow>
      (case np_ifft recf_x of
        Inl e \<Rightarrow> (Inl e, g2)
      | Inr sx \<Rightarrow>
      (case np_ifft recf_y of
        Inl e \<Rightarrow> (Inl e, g2)
      | Inr sy \<Rightarrow> (Inr (map creal sx, map creal sy), g2)))))))"

text \<open>\<^verbatim>\<open>for i in range(nsim)\<close>: the columns of \<open>X\<close> and \<open>Y\<close>, in order.\<close>

fun surrogates ::
  "('g, 'e) np_random \<Rightarrow> nat \<Rightarrow> float64 list \<Rightarrow> float64 list \<Rightarrow> nat \<Rightarrow> 'g
     \<Rightarrow> (error + (float64 list \<times> float64 list) list) \<times> 'g" where
  "surrogates R n modx mody 0 g = (Inr [], g)"
| "surrogates R n modx mody (Suc k) g =
     (case surrogate_pair R n modx mody g of
        (Inl e, g1) \<Rightarrow> (Inl e, g1)
      | (Inr p, g1) \<Rightarrow>
          (case surrogates R n modx mody k g1 of
             (Inl e, g2) \<Rightarrow> (Inl e, g2)
           | (Inr ps, g2) \<Rightarrow> (Inr (p # ps), g2)))"

section \<open>The test\<close>

text \<open>\<^verbatim>\<open>np.sort\<close>: the finite values ascending, then the NaNs.\<close>

definition finite_part :: "float64 list \<Rightarrow> real list" where
  "finite_part xs = concat (map (\<lambda>a. case a of Fin r \<Rightarrow> [r] | NaN \<Rightarrow> []) xs)"

definition np_sort :: "float64 list \<Rightarrow> float64 list" where
  "np_sort xs = map Fin (sort (finite_part xs)) @ filter (\<lambda>a. a = NaN) xs"

text \<open>
  The scalar arithmetic of \<^verbatim>\<open>int(nsim * (1 - level))\<close> is that of Python floats, and here
  the rounding decides which element is read, so it is modelled: every operation rounds its
  exact result to the nearest double, a tie going to the even significand. Doubles have
  53 significant bits; \<open>ulp64 x\<close> is the distance between neighbouring doubles at the
  size of \<open>x\<close>, which stops shrinking at the subnormal numbers. Overflow is left out:
  the product is of the size of \<open>nsim\<close>, the number of columns of an array that has been
  allocated, times the size of \<open>1 - level\<close>, and the statements about the index bound
  both.
\<close>

definition round_half_even :: "real \<Rightarrow> int" where
  "round_half_even q =
     (let f = \<lfloor>q\<rfloor>; d = q - of_int f
      in if d < 1 / 2 then f
         else if 1 / 2 < d then f + 1
         else if even f then f else f + 1)"

definition ulp64 :: "real \<Rightarrow> real" where
  "ulp64 x = 2 powr (of_int (max (- 1022) \<lfloor>log 2 \<bar>x\<bar>\<rfloor>) - 52)"

definition float64_round :: "real \<Rightarrow> real" where
  "float64_round x =
     (if x = 0 then 0 else of_int (round_half_even (x / ulp64 x)) * ulp64 x)"

text \<open>
  A Python integer is converted to a float before it meets one; a decimal that is written
  for \<open>level\<close> is read as the nearest double.
\<close>

definition float64_sub :: "real \<Rightarrow> real \<Rightarrow> real" where
  "float64_sub a b = float64_round (a - b)"

definition float64_mul :: "real \<Rightarrow> real \<Rightarrow> real" where
  "float64_mul a b = float64_round (a * b)"

text \<open>Python's \<^verbatim>\<open>int\<close> of a float truncates towards zero.\<close>

definition py_int :: "real \<Rightarrow> int" where
  "py_int r = (if 0 \<le> r then \<lfloor>r\<rfloor> else \<lceil>r\<rceil>)"

text \<open>Indexing an array: a negative index counts from the end, out of range raises.\<close>

definition getitem :: "'a list \<Rightarrow> int \<Rightarrow> error + 'a" where
  "getitem xs i =
     (if 0 \<le> i \<and> i < int (length xs) then Inr (xs ! nat i)
      else if i < 0 \<and> - int (length xs) \<le> i then Inr (xs ! nat (int (length xs) + i))
      else Inl (IndexError ''index out of bounds''))"

text \<open>\<^verbatim>\<open>np.sum(np.abs(rSim) > np.abs(r_real))\<close>.\<close>

definition count_larger :: "float64 list \<Rightarrow> float64 \<Rightarrow> int" where
  "count_larger rSim r_real =
     sum_list (map (\<lambda>r. if fgt (fabs r) (fabs r_real) then 1 else 0) rSim)"

text \<open>
  The function. It returns the tuple \<open>(F, rSim, r_real)\<close>; the critical value \<open>cv\<close> is
  printed. \<open>nsim\<close> is a Python integer, \<open>level\<close> a float, the inputs are finite numbers.
\<close>

definition ebisuzaki ::
  "('g, 'e) np_random \<Rightarrow> real list \<Rightarrow> real list \<Rightarrow> real \<Rightarrow> int \<Rightarrow> 32 word option
     \<Rightarrow> ('g, 'e) world
     \<Rightarrow> (error + (float64 \<times> float64 list \<times> float64)) \<times> ('g, 'e) world" where
  "ebisuzaki R x0 y0 level nsim seed w0 =
     (let w = np_random_seed R seed w0;
          x = zscore (map Fin x0);
          y = zscore (map Fin y0)
      in if length x \<noteq> length y
         then (Inl (ValueError ''Size of x and y must be the same''), w)
         else
          let n = length x;
              r_real = corrcoef x y
          in case np_fft x of
               Inl e \<Rightarrow> (Inl e, w)
             | Inr xf \<Rightarrow>
             (case np_fft y of
               Inl e \<Rightarrow> (Inl e, w)
             | Inr yf \<Rightarrow>
               let modx = map cabs xf;
                   mody = map cabs yf
               in if nsim < 0
                  then (Inl (ValueError ''negative dimensions are not allowed''), w)
                  else
                   (case surrogates R n modx mody (nat nsim) (rng w) of
                      (Inl e, g) \<Rightarrow> (Inl e, w\<lparr>rng := g\<rparr>)
                    | (Inr XY, g) \<Rightarrow>
                       let X = map (zscore \<circ> fst) XY;
                           Y = map (zscore \<circ> snd) XY;
                           rSim = map2 corrcoef X Y;
                           F = fdiv (Fin (of_int (count_larger rSim r_real)))
                                 (Fin (of_int nsim));
                           rSims_sorted = np_sort (map fabs rSim)
                       in case getitem rSims_sorted
                                 (py_int (float64_mul (float64_round (of_int nsim))
                                            (float64_sub 1 (float64_round level)))) of
                            Inl e \<Rightarrow> (Inl e, w\<lparr>rng := g\<rparr>)
                          | Inr cv \<Rightarrow>
                              (Inr (F, rSim, r_real),
                               w\<lparr>rng := g,
                                 stdout := stdout w @
                                   [Text ''---'',
                                    Report ''Observed correlation coefficient: r = '' r_real,
                                    Report ''Critical R Value: r = '' cv,
                                    Report ''Fraction of coefficients larger than observed: '' F]\<rparr>))))"

section \<open>A generator for the examples\<close>

text \<open>
  A small instance of the generator interface, on which the examples are evaluated: its
  state is a natural number, a seed sets it, the entropy is a counter, and the draws
  alternate between three quarters and one quarter, so that the drawn phases alternate
  between \<open>pi / 2\<close> and \<open>- pi / 2\<close>.
\<close>

definition toy :: "(nat, nat) np_random" where
  "toy = \<lparr>rng_seed = unat, rng_fresh = (\<lambda>e. (e, Suc e)),
          rng_double = (\<lambda>g. (if even g then 3 / 4 else 1 / 4, Suc g))\<rparr>"

definition world0 :: "(nat, nat) world" where
  "world0 = \<lparr>rng = 7, entropy = 100, stdout = []\<rparr>"

section \<open>Notions for the statements\<close>

text \<open>
  The lengths on which the loop body goes through: an even length from 2 on, and 3, where
  the phase array has length 1 and is broadcast.
\<close>

definition supported :: "nat \<Rightarrow> bool" where
  "supported n \<longleftrightarrow> (even n \<and> 2 \<le> n) \<or> n = 3"

text \<open>
  The index at which the sorted magnitudes are read: \<^verbatim>\<open>int(nsim * (1 - level))\<close>.
\<close>

definition cv_index :: "int \<Rightarrow> real \<Rightarrow> int" where
  "cv_index nsim level =
     py_int (float64_mul (float64_round (of_int nsim)) (float64_sub 1 (float64_round level)))"

text \<open>
  A column of \<open>X\<close> (or of \<open>Y\<close>) as the loop body computes it from the magnitudes and the
  drawn phases.
\<close>

definition surrogate :: "nat \<Rightarrow> float64 list \<Rightarrow> real list \<Rightarrow> float64 list" where
  "surrogate n md ps =
     (case np_multiply md (expj (phases_full n ps)) of
        Inl e \<Rightarrow> []
      | Inr c \<Rightarrow> (case np_ifft c of Inl e \<Rightarrow> [] | Inr s \<Rightarrow> map creal s))"

text \<open>
  The phase that bin \<open>k\<close> receives.
\<close>

definition phase_at :: "nat \<Rightarrow> real list \<Rightarrow> nat \<Rightarrow> real" where
  "phase_at n ps k = (if even n then phases_full n ps ! k else 0)"

text \<open>
  The spectrum with the random phases, for finite magnitudes.
\<close>

definition spectrum :: "nat \<Rightarrow> real list \<Rightarrow> real list \<Rightarrow> complex list" where
  "spectrum n m ps = map (\<lambda>k. complex_of_real (m ! k) * cis (phase_at n ps k)) [0..<n]"

text \<open>
  An array that is finite throughout or NaN throughout.
\<close>

definition uniform_nan :: "float64 list \<Rightarrow> bool" where
  "uniform_nan md \<longleftrightarrow> (\<exists>m. md = map Fin m) \<or> (\<forall>a \<in> set md. a = NaN)"

text \<open>
  Mean and population standard deviation of a list of reals.
\<close>

definition rmean :: "real list \<Rightarrow> real" where
  "rmean rs = sum_list rs / real (length rs)"

definition rstd :: "real list \<Rightarrow> real" where
  "rstd rs = sqrt (rmean (map (\<lambda>a. (a - rmean rs) * (a - rmean rs)) rs))"

text \<open>
  \<open>modx\<close> and \<open>mody\<close> of the source: the magnitudes of the transform of the standardised input.
\<close>

definition magnitudes :: "real list \<Rightarrow> float64 list" where
  "magnitudes x0 = (case np_fft (zscore (map Fin x0)) of Inr xf \<Rightarrow> map cabs xf | Inl e \<Rightarrow> [])"

text \<open>
  \<open>rSim\<close> from the columns of \<open>X\<close> and \<open>Y\<close>.
\<close>

definition correlations :: "(float64 list \<times> float64 list) list \<Rightarrow> float64 list" where
  "correlations cols = map (\<lambda>c. corrcoef (zscore (fst c)) (zscore (snd c))) cols"

text \<open>
  The four printed lines.
\<close>

definition report :: "float64 \<Rightarrow> float64 \<Rightarrow> float64 \<Rightarrow> out_line list" where
  "report r_real cv F =
     [Text ''---'',
      Report ''Observed correlation coefficient: r = '' r_real,
      Report ''Critical R Value: r = '' cv,
      Report ''Fraction of coefficients larger than observed: '' F]"

text \<open>
  A series that has the same value everywhere.
\<close>

definition is_constant :: "real list \<Rightarrow> bool" where
  "is_constant xs \<longleftrightarrow> (\<forall>a \<in> set xs. \<forall>b \<in> set xs. a = b)"

text \<open>
  The bin that mirrors bin \<open>k\<close> in an array of \<open>n\<close> bins, and the symmetry of the transform
  of a real signal: the mirrored bin holds the complex conjugate.
\<close>

definition mirror :: "nat \<Rightarrow> nat \<Rightarrow> nat" where
  "mirror n k = (n - k) mod n"

definition hermitian :: "complex list \<Rightarrow> bool" where
  "hermitian zs \<longleftrightarrow> (\<forall>k<length zs. zs ! mirror (length zs) k = cnj (zs ! k))"

text \<open>
  A list of mean 0 and of mean square 1, as the standardisation leaves it.
\<close>

definition standard :: "real list \<Rightarrow> bool" where
  "standard xs \<longleftrightarrow>
     (\<Sum>i<length xs. xs ! i) = 0 \<and> (\<Sum>i<length xs. (xs ! i)\<^sup>2) = real (length xs)"

section \<open>Sums of roots of unity\<close>

lemma cis_eq_one_iff: "cis t = 1 \<longleftrightarrow> (\<exists>q::int. t = 2 * pi * of_int q)"
proof
  assume "cis t = 1"
  then have "cos t = 1" by (simp add: complex_eq_iff)
  then obtain q :: int where "t = of_int q * 2 * pi" using cos_one_2pi_int by blast
  then show "\<exists>q::int. t = 2 * pi * of_int q" by (intro exI [of _ q]) simp
next
  assume "\<exists>q::int. t = 2 * pi * of_int q"
  then show "cis t = 1" by auto
qed

lemma sum_roots_of_unity:
  assumes "0 < n"
  shows "(\<Sum>k<n. cis (2 * pi * real k * of_int m / real n))
           = (if int n dvd m then of_nat n else 0)"
proof -
  define w where "w = cis (2 * pi * of_int m / real n)"
  have pw: "cis (2 * pi * real k * of_int m / real n) = w ^ k" for k
    unfolding w_def DeMoivre by (simp add: mult_ac)
  have wn: "w ^ n = 1"
    unfolding w_def DeMoivre using assms by simp
  show ?thesis
  proof (cases "int n dvd m")
    case True
    then obtain q where "m = int n * q" by (auto elim: dvdE)
    then have "2 * pi * of_int m / real n = 2 * pi * of_int q" using assms by simp
    then have "w = 1" unfolding w_def by simp
    with True show ?thesis by (simp add: pw)
  next
    case False
    have "w \<noteq> 1"
    proof
      assume "w = 1"
      then obtain q :: int where q: "2 * pi * of_int m / real n = 2 * pi * of_int q"
        unfolding w_def cis_eq_one_iff by blast
      then have "real_of_int m = real_of_int (q * int n)" using assms by (simp add: field_simps)
      then have "m = q * int n" by (simp only: of_int_eq_iff)
      with False show False by simp
    qed
    then have "(\<Sum>k<n. w ^ k) = (w ^ n - 1) / (w - 1)" by (rule geometric_sum)
    with wn False show ?thesis by (simp add: pw)
  qed
qed

lemma orthogonality:
  assumes "0 < n" "a < n" "b < n"
  shows "(\<Sum>k<n. cis (2 * pi * real k * real a / real n) * cis (- (2 * pi * real k * real b / real n)))
           = (if a = b then of_nat n else 0)"
proof -
  have "cis (2 * pi * real k * real a / real n) * cis (- (2 * pi * real k * real b / real n))
      = cis (2 * pi * real k * of_int (int a - int b) / real n)" for k
    by (simp add: cis_mult algebra_simps diff_divide_distrib)
  moreover have "int n dvd (int a - int b) \<longleftrightarrow> a = b"
  proof
    assume d: "int n dvd (int a - int b)"
    have "\<bar>int a - int b\<bar> < int n" using assms by auto
    with d have "int a - int b = 0" using zdvd_not_zless [of "\<bar>int a - int b\<bar>" "int n"]
      by (cases "int a - int b = 0") auto
    then show "a = b" by simp
  qed simp
  ultimately show ?thesis using sum_roots_of_unity [OF assms(1), of "int a - int b"] by simp
qed


section \<open>The transform and its inverse\<close>

lemma length_dft [simp]: "length (dft xs) = length xs"
  by (simp add: dft_def)

lemma length_idft [simp]: "length (idft xs) = length xs"
  by (simp add: idft_def)

lemma dft_nth:
  "k < length xs \<Longrightarrow>
   dft xs ! k = (\<Sum>j<length xs. xs ! j * cis (- (2 * pi * real j * real k / real (length xs))))"
  by (simp add: dft_def)

lemma idft_nth:
  "j < length zs \<Longrightarrow>
   idft zs ! j = (\<Sum>k<length zs. zs ! k * cis (2 * pi * real j * real k / real (length zs)))
                   / complex_of_real (real (length zs))"
  by (simp add: idft_def)

lemma sum_times_delta:
  fixes f :: "nat \<Rightarrow> complex"
  shows "(\<Sum>l<n. f l * (if l = k then c else 0)) = (if k < n then f k * c else 0)"
proof -
  have "(\<Sum>l<n. f l * (if l = k then c else 0)) = (\<Sum>l<n. if l = k then f l * c else 0)"
    by (intro sum.cong) auto
  then show ?thesis by simp
qed

lemma dft_idft: "dft (idft zs) = zs"
proof (rule nth_equalityI)
  show "length (dft (idft zs)) = length zs" by simp
next
  fix k assume "k < length (dft (idft zs))"
  then have k: "k < length zs" by simp
  define n where "n = length zs"
  have n: "0 < n" using k unfolding n_def by auto
  define e where "e j l = cis (2 * pi * real j * real l / real n)" for j l
  define d where "d j = cis (- (2 * pi * real j * real k / real n))" for j
  have orth: "(\<Sum>j<n. e j l * d j) = (if l = k then of_nat n else 0)" if "l < n" for l
    unfolding e_def d_def using orthogonality [OF n that k [folded n_def]] .
  have "dft (idft zs) ! k = (\<Sum>j<n. (\<Sum>l<n. zs ! l * e j l) / of_nat n * d j)"
    using k by (simp add: dft_nth idft_nth n_def e_def d_def)
  also have "\<dots> = (\<Sum>j<n. \<Sum>l<n. zs ! l / of_nat n * (e j l * d j))"
    by (simp add: sum_divide_distrib sum_distrib_right mult.assoc)
  also have "\<dots> = (\<Sum>l<n. \<Sum>j<n. zs ! l / of_nat n * (e j l * d j))"
    by (rule sum.swap)
  also have "\<dots> = (\<Sum>l<n. zs ! l / of_nat n * (if l = k then of_nat n else 0))"
  proof (intro sum.cong refl)
    fix l assume "l \<in> {..<n}"
    then have l: "l < n" by simp
    have "(\<Sum>j<n. zs ! l / of_nat n * (e j l * d j)) = zs ! l / of_nat n * (\<Sum>j<n. e j l * d j)"
      by (rule sum_distrib_left [symmetric])
    then show "(\<Sum>j<n. zs ! l / of_nat n * (e j l * d j))
        = zs ! l / of_nat n * (if l = k then of_nat n else 0)"
      by (simp only: orth [OF l])
  qed
  also have "\<dots> = (if k < n then zs ! k / of_nat n * of_nat n else 0)"
    by (rule sum_times_delta)
  also have "\<dots> = zs ! k"
    using n k [folded n_def] by simp
  finally show "dft (idft zs) ! k = zs ! k" .
qed

lemma mult_cnj_cmod: "z * cnj z = (complex_of_real (cmod z))\<^sup>2"
  by (simp flip: complex_norm_square)

lemma parseval:
  "(\<Sum>k<length xs. (cmod (dft xs ! k))\<^sup>2) = real (length xs) * (\<Sum>j<length xs. (cmod (xs ! j))\<^sup>2)"
proof (cases "xs = []")
  case True
  then show ?thesis by simp
next
  case False
  define n where "n = length xs"
  have n: "0 < n" using False by (simp add: n_def)
  define c where "c j k = cis (- (2 * pi * real j * real k / real n))" for j k
  have orth: "(\<Sum>k<n. c j k * cnj (c l k)) = (if l = j then of_nat n else 0)"
    if "j < n" "l < n" for j l
  proof -
    have "c j k * cnj (c l k)
        = cis (2 * pi * real k * real l / real n) * cis (- (2 * pi * real k * real j / real n))" for k
      by (simp add: c_def cis_cnj mult_ac)
    then show ?thesis using orthogonality [OF n that(2) that(1)] by simp
  qed
  have "complex_of_real (\<Sum>k<n. (cmod (dft xs ! k))\<^sup>2) = (\<Sum>k<n. dft xs ! k * cnj (dft xs ! k))"
    by (simp add: mult_cnj_cmod)
  also have "\<dots> = (\<Sum>k<n. (\<Sum>j<n. xs ! j * c j k) * (\<Sum>l<n. cnj (xs ! l) * cnj (c l k)))"
    by (simp add: dft_nth n_def c_def)
  also have "\<dots> = (\<Sum>k<n. \<Sum>j<n. \<Sum>l<n. xs ! j * cnj (xs ! l) * (c j k * cnj (c l k)))"
    by (simp add: sum_product mult_ac)
  also have "\<dots> = (\<Sum>j<n. \<Sum>k<n. \<Sum>l<n. xs ! j * cnj (xs ! l) * (c j k * cnj (c l k)))"
    by (rule sum.swap)
  also have "\<dots> = (\<Sum>j<n. \<Sum>l<n. \<Sum>k<n. xs ! j * cnj (xs ! l) * (c j k * cnj (c l k)))"
    by (intro sum.cong refl sum.swap)
  also have "\<dots> = (\<Sum>j<n. \<Sum>l<n. xs ! j * cnj (xs ! l) * (if l = j then of_nat n else 0))"
    by (intro sum.cong refl) (simp add: sum_distrib_left [symmetric] orth)
  also have "\<dots> = (\<Sum>j<n. xs ! j * cnj (xs ! j) * of_nat n)"
    by (intro sum.cong refl) (simp add: sum_times_delta)
  also have "\<dots> = complex_of_real (real n * (\<Sum>j<n. (cmod (xs ! j))\<^sup>2))"
    by (simp add: mult_cnj_cmod sum_distrib_left mult_ac)
  finally show ?thesis
    unfolding n_def by (simp only: of_real_eq_iff)
qed


section \<open>Conjugate symmetry\<close>

lemma mirror_less: "0 < n \<Longrightarrow> mirror n k < n"
  by (simp add: mirror_def)

lemma mirror_mirror: "k < n \<Longrightarrow> mirror n (mirror n k) = k"
  by (cases "k = 0") (simp_all add: mirror_def)

lemma mirror_pos: "0 < k \<Longrightarrow> k < n \<Longrightarrow> mirror n k = n - k"
  by (simp add: mirror_def)

lemma mirror_zero [simp]: "mirror n 0 = 0"
  by (simp add: mirror_def)

lemma cis_mirror:
  assumes "k < n"
  shows "cis (2 * pi * real j * real (mirror n k) / real n)
           = cis (- (2 * pi * real j * real k / real n))"
proof (cases "k = 0")
  case True
  then show ?thesis by simp
next
  case False
  with assms have m: "real (mirror n k) = real n - real k"
    by (simp add: mirror_pos of_nat_diff)
  have "2 * pi * real j * (real n - real k) / real n
      = 2 * pi * real j + - (2 * pi * real j * real k / real n)"
    using assms by (simp add: field_simps)
  then have "cis (2 * pi * real j * real (mirror n k) / real n)
      = cis (2 * pi * real j) * cis (- (2 * pi * real j * real k / real n))"
    by (simp only: m cis_mult)
  then show ?thesis by simp
qed

lemma sum_mirror:
  fixes f :: "nat \<Rightarrow> complex"
  shows "(\<Sum>k<n. f (mirror n k)) = (\<Sum>k<n. f k)"
proof (cases "n = 0")
  case True
  then show ?thesis by simp
next
  case False
  then have n: "0 < n" by simp
  show ?thesis
    by (rule sum.reindex_bij_witness [of _ "mirror n" "mirror n"])
       (simp_all add: mirror_mirror mirror_less n)
qed

lemma cis_neg_mirror:
  assumes "k < n"
  shows "cis (- (2 * pi * real j * real (mirror n k) / real n))
           = cnj (cis (- (2 * pi * real j * real k / real n)))"
proof -
  have "cis (- (2 * pi * real j * real (mirror n k) / real n))
      = cnj (cis (2 * pi * real j * real (mirror n k) / real n))"
    by (simp only: cis_cnj)
  also have "\<dots> = cnj (cis (- (2 * pi * real j * real k / real n)))"
    by (simp only: cis_mirror [OF assms])
  finally show ?thesis .
qed

lemma hermitian_dft_real: "hermitian (dft (map complex_of_real rs))"
  unfolding hermitian_def
proof (intro allI impI)
  fix k assume "k < length (dft (map complex_of_real rs))"
  then have k: "k < length rs" by simp
  then have n: "0 < length rs" by auto
  have "dft (map complex_of_real rs) ! mirror (length rs) k
      = (\<Sum>j<length rs. complex_of_real (rs ! j)
            * cis (- (2 * pi * real j * real (mirror (length rs) k) / real (length rs))))"
    using mirror_less [OF n, of k] by (simp add: dft_nth)
  also have "\<dots> = (\<Sum>j<length rs. complex_of_real (rs ! j)
            * cnj (cis (- (2 * pi * real j * real k / real (length rs)))))"
    by (simp only: cis_neg_mirror [OF k])
  also have "\<dots> = cnj (dft (map complex_of_real rs) ! k)"
    using k by (simp add: dft_nth)
  finally show "dft (map complex_of_real rs) ! mirror (length (dft (map complex_of_real rs))) k
      = cnj (dft (map complex_of_real rs) ! k)"
    by simp
qed

lemma idft_hermitian_real:
  assumes "hermitian zs" "j < length zs"
  shows "Im (idft zs ! j) = 0"
proof -
  define n where "n = length zs"
  have n: "0 < n" using assms(2) unfolding n_def by auto
  define S where "S = (\<Sum>k<n. zs ! k * cis (2 * pi * real j * real k / real n))"
  have "cnj S = (\<Sum>k<n. cnj (zs ! k) * cis (- (2 * pi * real j * real k / real n)))"
    by (simp add: S_def cis_cnj)
  also have "\<dots> = (\<Sum>k<n. zs ! mirror n k * cis (2 * pi * real j * real (mirror n k) / real n))"
    using assms(1) by (intro sum.cong refl) (simp add: hermitian_def n_def cis_mirror)
  also have "\<dots> = S"
    unfolding S_def by (rule sum_mirror [of "\<lambda>k. zs ! k * cis (2 * pi * real j * real k / real n)"])
  finally have "Im S = 0" by (simp add: complex_eq_iff)
  moreover have "idft zs ! j = S / complex_of_real (real n)"
    using assms(2) by (simp add: idft_nth S_def n_def)
  ultimately show ?thesis by (simp add: Im_divide_of_real)
qed

lemma idft_hermitian:
  assumes "hermitian zs"
  shows "map complex_of_real (map Re (idft zs)) = idft zs"
  using idft_hermitian_real [OF assms]
  by (intro nth_equalityI) (simp_all add: complex_eq_iff)

text \<open>The transform of the real part of the inverse transform of a symmetric spectrum.\<close>

lemma dft_surrogate:
  assumes "hermitian zs"
  shows "dft (map complex_of_real (map Re (idft zs))) = zs"
  by (simp only: idft_hermitian [OF assms] dft_idft)

section \<open>Rounding to the nearest double\<close>

lemma round_half_even_of_int [simp]: "round_half_even (of_int k) = k"
  by (simp add: round_half_even_def)

lemma round_half_even_numeral [simp]:
  "round_half_even (numeral n) = numeral n" "round_half_even 1 = 1" "round_half_even 0 = 0"
  using round_half_even_of_int [of "numeral n"] round_half_even_of_int [of 1]
    round_half_even_of_int [of 0]
  by simp_all

lemma round_half_even_error: "\<bar>of_int (round_half_even q) - q\<bar> \<le> 1 / 2"
  unfolding round_half_even_def Let_def
  by (auto simp: abs_le_iff)

lemma round_half_even_ge:
  assumes "of_int K \<le> q"
  shows "K \<le> round_half_even q"
proof -
  have "K \<le> \<lfloor>q\<rfloor>" using assms by (simp add: le_floor_iff)
  then show ?thesis unfolding round_half_even_def Let_def by auto
qed

lemma round_half_even_le:
  assumes "q \<le> of_int K"
  shows "round_half_even q \<le> K"
proof (cases "q = of_int K")
  case True
  then show ?thesis by simp
next
  case False
  then have "q < of_int K" using assms by simp
  then have "\<lfloor>q\<rfloor> < K" by (simp add: floor_less_iff)
  then show ?thesis unfolding round_half_even_def Let_def by auto
qed

lemma ulp64_pos [simp]: "0 < ulp64 x"
  by (simp add: ulp64_def)

lemma float64_round_zero [simp]: "float64_round 0 = 0"
  by (simp add: float64_round_def)

lemma float64_round_error: "\<bar>float64_round x - x\<bar> \<le> ulp64 x / 2"
proof (cases "x = 0")
  case True
  then show ?thesis using ulp64_pos [of 0] by (simp add: less_imp_le)
next
  case False
  have "\<bar>of_int (round_half_even (x / ulp64 x)) - x / ulp64 x\<bar> * ulp64 x \<le> 1 / 2 * ulp64 x"
    by (rule mult_right_mono [OF round_half_even_error]) (simp add: less_imp_le)
  moreover have "\<bar>of_int (round_half_even (x / ulp64 x)) - x / ulp64 x\<bar> * ulp64 x
      = \<bar>of_int (round_half_even (x / ulp64 x)) * ulp64 x - x\<bar>"
  proof -
    have "\<bar>of_int (round_half_even (x / ulp64 x)) - x / ulp64 x\<bar> * ulp64 x
        = \<bar>(of_int (round_half_even (x / ulp64 x)) - x / ulp64 x) * ulp64 x\<bar>"
      by (simp add: abs_mult less_imp_le)
    also have "(of_int (round_half_even (x / ulp64 x)) - x / ulp64 x) * ulp64 x
        = of_int (round_half_even (x / ulp64 x)) * ulp64 x - x"
      using ulp64_pos [of x] by (simp add: algebra_simps less_imp_neq [THEN not_sym])
    finally show ?thesis .
  qed
  ultimately show ?thesis using False by (simp add: float64_round_def)
qed

lemma float64_round_nonneg:
  assumes "0 \<le> x"
  shows "0 \<le> float64_round x"
proof (cases "x = 0")
  case True
  then show ?thesis by simp
next
  case False
  have "of_int 0 \<le> x / ulp64 x" using assms by (simp add: less_imp_le)
  then have "0 \<le> round_half_even (x / ulp64 x)" by (rule round_half_even_ge)
  then show ?thesis using False by (simp add: float64_round_def less_imp_le)
qed

lemma float64_round_grid_le:
  assumes "x \<noteq> 0" "x \<le> of_int K * ulp64 x"
  shows "float64_round x \<le> of_int K * ulp64 x"
proof -
  have "x / ulp64 x \<le> of_int K" using assms(2) by (simp add: pos_divide_le_eq)
  then have "round_half_even (x / ulp64 x) \<le> K" by (rule round_half_even_le)
  then have "of_int (round_half_even (x / ulp64 x)) * ulp64 x \<le> of_int K * ulp64 x"
    by (intro mult_right_mono) (simp_all add: less_imp_le)
  then show ?thesis using assms(1) by (simp add: float64_round_def)
qed

lemma float64_round_grid_ge:
  assumes "x \<noteq> 0" "of_int K * ulp64 x \<le> x"
  shows "of_int K * ulp64 x \<le> float64_round x"
proof -
  have "of_int K \<le> x / ulp64 x" using assms(2) by (simp add: pos_le_divide_eq)
  then have "K \<le> round_half_even (x / ulp64 x)" by (rule round_half_even_ge)
  then have "of_int K * ulp64 x \<le> of_int (round_half_even (x / ulp64 x)) * ulp64 x"
    by (intro mult_right_mono) (simp_all add: less_imp_le)
  then show ?thesis using assms(1) by (simp add: float64_round_def)
qed

text \<open>The exponent of a number between two powers of two.\<close>

lemma floor_log2:
  assumes "2 powr of_int e \<le> x" "x < 2 powr (of_int e + 1)"
  shows "\<lfloor>log 2 x\<rfloor> = e"
proof -
  have pos: "0 < x" using assms(1) by (rule less_le_trans [rotated]) simp
  have "of_int e \<le> log 2 x" using assms(1) pos by (simp add: le_log_iff)
  moreover have "log 2 x < of_int e + 1" using assms(2) pos by (simp add: log_less_iff)
  ultimately show ?thesis by (simp add: floor_eq_iff)
qed

lemma ulp64_binade:
  assumes "2 powr of_int e \<le> \<bar>x\<bar>" "\<bar>x\<bar> < 2 powr (of_int e + 1)" "- 1022 \<le> e"
  shows "ulp64 x = 2 powr (of_int e - 52)"
  using floor_log2 [OF assms(1,2)] assms(3) by (simp add: ulp64_def max_def)


lemma two_powr_neg: "(2::real) powr (- real n) = 1 / 2 ^ n"
  by (simp add: powr_minus_divide powr_realpow)

text \<open>The integers below \<open>2 ^ 53\<close> are doubles.\<close>

lemma float64_round_int:
  assumes "0 < m" "m < 2 ^ 53"
  shows "float64_round (of_int m) = of_int m"
proof -
  define e where "e = \<lfloor>log 2 (of_int m)\<rfloor>"
  have m1: "(1::real) \<le> of_int m" using assms(1) by simp
  have "0 \<le> log 2 (of_int m)" using m1 by simp
  then have e0: "0 \<le> e" by (simp add: e_def)
  have "real_of_int m < 2 ^ 53" using assms(2) by (metis of_int_less_iff of_int_numeral of_int_power)
  then have "real_of_int m < 2 powr 53" by simp
  then have "log 2 (of_int m) < 53" using m1 by (simp add: log_less_iff)
  then have "e < 53" by (simp add: e_def floor_less_iff)
  then have e52: "e \<le> 52" by simp
  define n where "n = nat (52 - e)"
  have en: "of_int e - 52 = - real n" using e52 by (simp add: n_def)
  have "\<bar>real_of_int m\<bar> = real_of_int m" using assms(1) by simp
  moreover have "max (- 1022) e = e" using e0 by simp
  ultimately have "ulp64 (of_int m) = 2 powr (of_int e - 52)"
    by (simp only: ulp64_def e_def)
  then have u: "ulp64 (of_int m) = 1 / 2 ^ n"
    unfolding en by (simp only: two_powr_neg)
  have q: "real_of_int m / (1 / 2 ^ n) = of_int (m * 2 ^ n)" by simp
  show ?thesis
    unfolding float64_round_def u q round_half_even_of_int using assms(1) by simp
qed

lemma float64_round_one [simp]: "float64_round 1 = 1"
  using float64_round_int [of 1] by simp

lemma float64_round_le_one:
  assumes "x \<le> 1"
  shows "float64_round x \<le> 1"
proof -
  consider "x = 0" | "x < 0" | "0 < x" by linarith
  then show ?thesis
  proof cases
    case 1
    then show ?thesis by simp
  next
    case 2
    then have "float64_round x \<le> of_int 0 * ulp64 x"
      by (intro float64_round_grid_le) simp_all
    then show ?thesis by simp
  next
    case 3
    define e where "e = max (- 1022) \<lfloor>log 2 \<bar>x\<bar>\<rfloor>"
    have "log 2 \<bar>x\<bar> \<le> 0" using 3 assms by simp
    then have "\<lfloor>log 2 \<bar>x\<bar>\<rfloor> \<le> 0" by (simp add: floor_le_iff)
    then have e0: "e \<le> 0" by (simp add: e_def)
    define n where "n = nat (52 - e)"
    have en: "of_int e - 52 = - real n" using e0 by (simp add: n_def)
    have u: "ulp64 x = 1 / 2 ^ n"
      unfolding ulp64_def e_def [symmetric] en by (rule two_powr_neg)
    have "float64_round x \<le> of_int (2 ^ n) * ulp64 x"
      using 3 assms by (intro float64_round_grid_le) (simp_all add: u)
    then show ?thesis by (simp add: u)
  qed
qed

text \<open>The rounding error, relative to the size of the number.\<close>

lemma ulp64_le:
  assumes "x \<noteq> 0"
  shows "ulp64 x \<le> \<bar>x\<bar> / 2 ^ 52 + 1 / 2 ^ 99"
proof (cases "- 1022 \<le> \<lfloor>log 2 \<bar>x\<bar>\<rfloor>")
  case True
  have "2 powr of_int \<lfloor>log 2 \<bar>x\<bar>\<rfloor> \<le> 2 powr log 2 \<bar>x\<bar>"
    by (rule powr_mono) simp_all
  also have "\<dots> = \<bar>x\<bar>" using assms by simp
  finally have le: "2 powr of_int \<lfloor>log 2 \<bar>x\<bar>\<rfloor> \<le> \<bar>x\<bar>" .
  have "ulp64 x = 2 powr of_int \<lfloor>log 2 \<bar>x\<bar>\<rfloor> / 2 ^ 52"
    using True by (simp add: ulp64_def max_def powr_diff)
  also have "\<dots> \<le> \<bar>x\<bar> / 2 ^ 52" using le by (simp add: divide_right_mono)
  finally show ?thesis by simp
next
  case False
  then have "ulp64 x = 2 powr (- 1074)" by (simp add: ulp64_def max_def)
  also have "\<dots> \<le> 2 powr (- 99)" by (rule powr_mono) simp_all
  also have "\<dots> = 1 / 2 ^ 99" by (simp add: powr_minus_divide)
  finally show ?thesis by (simp add: add_increasing)
qed

lemma float64_round_rel_error:
  "\<bar>float64_round x - x\<bar> \<le> \<bar>x\<bar> / 2 ^ 53 + 1 / 2 ^ 100"
proof (cases "x = 0")
  case True
  then show ?thesis by simp
next
  case False
  have "\<bar>float64_round x - x\<bar> \<le> ulp64 x / 2" by (rule float64_round_error)
  also have "\<dots> \<le> (\<bar>x\<bar> / 2 ^ 52 + 1 / 2 ^ 99) / 2"
    using ulp64_le [OF False] by simp
  also have "\<dots> = \<bar>x\<bar> / 2 ^ 53 + 1 / 2 ^ 100" by simp
  finally show ?thesis .
qed


section \<open>The index of the critical value\<close>

text \<open>
  For a number of simulations below \<open>2 ^ 53\<close> and a level from \<open>2 ^ - 50\<close> to 1 the index
  is one of the array.
\<close>

lemma cv_index_range:
  assumes "0 < nsim" "nsim < 2 ^ 53" "1 / 2 ^ 50 \<le> level" "level \<le> 1"
  shows "0 \<le> cv_index nsim level" "cv_index nsim level < nsim"
proof -
  define L where "L = float64_round level"
  define a where "a = float64_round (1 - L)"
  define p where "p = real_of_int nsim * a"
  define r where "r = float64_round p"
  have idx: "cv_index nsim level = py_int r"
    using float64_round_int [OF assms(1,2)]
    by (simp add: cv_index_def float64_mul_def float64_sub_def r_def p_def a_def L_def)
  have n1: "1 \<le> real_of_int nsim" using assms(1) by simp
  have L1: "L \<le> 1" unfolding L_def using assms(4) by (rule float64_round_le_one)
  have "\<bar>L - level\<bar> \<le> \<bar>level\<bar> / 2 ^ 53 + 1 / 2 ^ 100"
    unfolding L_def by (rule float64_round_rel_error)
  then have "level - level / 2 ^ 53 - 1 / 2 ^ 100 \<le> L" using assms(3) by simp
  then have L0: "1 / 2 ^ 51 \<le> L" using assms(3) by simp
  have a0: "0 \<le> a" unfolding a_def using L1 by (intro float64_round_nonneg) simp
  have "\<bar>a - (1 - L)\<bar> \<le> \<bar>1 - L\<bar> / 2 ^ 53 + 1 / 2 ^ 100"
    unfolding a_def by (rule float64_round_rel_error)
  then have "a \<le> (1 - L) + (1 - L) / 2 ^ 53 + 1 / 2 ^ 100" using L1 by simp
  moreover have "1 - L \<le> 1 - 1 / 2 ^ 51" using L0 by simp
  moreover from this have "(1 - L) / 2 ^ 53 \<le> (1 - 1 / 2 ^ 51) / 2 ^ 53"
    by (rule divide_right_mono) simp
  ultimately have "a \<le> (1 - 1 / 2 ^ 51) + (1 - 1 / 2 ^ 51) / 2 ^ 53 + 1 / 2 ^ 100"
    by linarith
  also have "\<dots> \<le> 1 - 1 / 2 ^ 52" by simp
  finally have a1: "a \<le> 1 - 1 / 2 ^ 52" .
  have p0: "0 \<le> p" unfolding p_def using n1 a0 by simp
  have "real_of_int nsim * a \<le> real_of_int nsim * (1 - 1 / 2 ^ 52)"
    using a1 n1 by (intro mult_left_mono) simp_all
  then have p1: "p \<le> real_of_int nsim - real_of_int nsim / 2 ^ 52"
    by (simp add: p_def algebra_simps)
  have r0: "0 \<le> r" unfolding r_def using p0 by (rule float64_round_nonneg)
  have "\<bar>r - p\<bar> \<le> \<bar>p\<bar> / 2 ^ 53 + 1 / 2 ^ 100"
    unfolding r_def by (rule float64_round_rel_error)
  then have "r \<le> p + p / 2 ^ 53 + 1 / 2 ^ 100" using p0 by simp
  moreover have "p / 2 ^ 53 \<le> (real_of_int nsim - real_of_int nsim / 2 ^ 52) / 2 ^ 53"
    using p1 by (rule divide_right_mono) simp
  ultimately have "r \<le> (real_of_int nsim - real_of_int nsim / 2 ^ 52)
      + (real_of_int nsim - real_of_int nsim / 2 ^ 52) / 2 ^ 53 + 1 / 2 ^ 100"
    using p1 by linarith
  also have "\<dots> = real_of_int nsim - real_of_int nsim * (1 / 2 ^ 53 + 1 / 2 ^ 105)
      + 1 / 2 ^ 100"
    by (simp add: algebra_simps)
  also have "\<dots> \<le> real_of_int nsim - 1 * (1 / 2 ^ 53 + 1 / 2 ^ 105) + 1 / 2 ^ 100"
    using n1 by (intro add_right_mono diff_left_mono mult_right_mono) simp_all
  also have "\<dots> < real_of_int nsim" by simp
  finally have r1: "r < real_of_int nsim" .
  show "0 \<le> cv_index nsim level" using r0 by (simp add: idx py_int_def)
  show "cv_index nsim level < nsim" using r0 r1 by (simp add: idx py_int_def floor_less_iff)
qed

text \<open>
  A level of \<open>2 ^ - 60\<close> is lost in the subtraction: \<open>1 - level\<close> rounds to 1, and the index
  is \<open>nsim\<close>.
\<close>

lemma ulp64_tiny: "ulp64 (1 / 2 ^ 60) = 1 / 2 ^ 112"
  using ulp64_binade [of "- 60" "1 / 2 ^ 60"]
  by (simp add: powr_minus_divide)

lemma float64_round_tiny: "float64_round (1 / 2 ^ 60) = 1 / 2 ^ 60"
  unfolding float64_round_def ulp64_tiny by simp

lemma ulp64_below_one: "ulp64 (1 - 1 / 2 ^ 60) = 1 / 2 ^ 53"
  using ulp64_binade [of "- 1" "1 - 1 / 2 ^ 60"]
  by (simp add: powr_minus_divide)

lemma float64_round_below_one: "float64_round (1 - 1 / 2 ^ 60) = 1"
proof -
  have q: "(1 - 1 / 2 ^ 60) / (1 / 2 ^ 53) = (2 ^ 53 - 1 / 2 ^ 7 :: real)" by simp
  have f: "\<lfloor>2 ^ 53 - 1 / 2 ^ 7 :: real\<rfloor> = 2 ^ 53 - 1"
    by (simp add: floor_eq_iff)
  have "round_half_even (2 ^ 53 - 1 / 2 ^ 7) = 2 ^ 53"
    unfolding round_half_even_def f Let_def by simp
  then show ?thesis
    unfolding float64_round_def ulp64_below_one q by simp
qed

lemma cv_index_tiny: "cv_index 1 (1 / 2 ^ 60) = 1"
  unfolding cv_index_def float64_mul_def float64_sub_def float64_round_tiny
    float64_round_below_one
  by (simp add: py_int_def)

lemma cv_index_zero [simp]: "cv_index 0 level = 0"
  by (simp add: cv_index_def float64_mul_def py_int_def)

section \<open>Arrays and the generator\<close>

lemma length_zscore [simp]: "length (zscore xs) = length xs"
  by (simp add: zscore_def Let_def)

lemma length_random_sample: "length (fst (random_sample R k g)) = k"
proof (induction k arbitrary: g)
  case 0
  show ?case by simp
next
  case (Suc k)
  obtain u g1 where d: "rng_double R g = (u, g1)" by (cases "rng_double R g")
  obtain us g2 where r: "random_sample R k g1 = (us, g2)" by (cases "random_sample R k g1")
  from Suc [of g1] r have "length us = k" by simp
  with d r show ?case by simp
qed

lemma np_random_uniform_Inr:
  "np_random_uniform R lo hi sz g = Inr (ps, g') \<Longrightarrow> 0 \<le> sz \<and> length ps = nat sz"
  using length_random_sample [of R "nat sz" g]
  by (auto simp: np_random_uniform_def split: if_splits prod.splits)

lemma np_random_uniform_ex:
  "0 \<le> sz \<Longrightarrow> \<exists>ps g'. np_random_uniform R lo hi sz g = Inr (ps, g')"
  by (auto simp: np_random_uniform_def split: prod.splits)

lemma np_random_uniform_neg:
  "sz < 0 \<Longrightarrow> np_random_uniform R lo hi sz g = Inl (ValueError ''negative dimensions are not allowed'')"
  by (simp add: np_random_uniform_def)

lemma length_phases_full:
  "length (phases_full n ps) = (if even n then 2 * length ps + 2 else 2 * length ps + 1)"
  by (simp add: phases_full_def even_iff_mod_2_eq_zero)

lemma fins_Some: "fins xs = Some rs \<Longrightarrow> xs = map Fin rs"
proof (induction xs arbitrary: rs rule: fins.induct)
  case 1
  then show ?case by simp
next
  case (2 a xs)
  then show ?case by (cases "fins xs") auto
next
  case (3 xs)
  then show ?case by simp
qed

lemma fins_map_Fin [simp]: "fins (map Fin rs) = Some rs"
  by (induction rs) simp_all

lemma fins_None: "fins xs = None \<longleftrightarrow> NaN \<in> set xs"
  by (induction xs rule: fins.induct) auto

lemma cfins_Some: "cfins zs = Some cs \<Longrightarrow> zs = map CFin cs"
proof (induction zs arbitrary: cs rule: cfins.induct)
  case 1
  then show ?case by simp
next
  case (2 z zs)
  then show ?case by (cases "cfins zs") auto
next
  case (3 zs)
  then show ?case by simp
qed

lemma cfins_map_CFin [simp]: "cfins (map CFin cs) = Some cs"
  by (induction cs) simp_all

lemma cfins_None: "cfins zs = None \<longleftrightarrow> CNaN \<in> set zs"
  by (induction zs rule: cfins.induct) auto

lemma np_ifft_Inr_length: "np_ifft zs = Inr cs \<Longrightarrow> length cs = length zs"
  by (auto simp: np_ifft_def split: if_splits option.splits dest!: cfins_Some)

lemma np_fft_Inr_length: "np_fft xs = Inr cs \<Longrightarrow> length cs = length xs \<and> xs \<noteq> []"
  by (auto simp: np_fft_def split: if_splits option.splits dest!: fins_Some)

lemma np_fft_ex: "xs \<noteq> [] \<Longrightarrow> \<exists>cs. np_fft xs = Inr cs"
  by (auto simp: np_fft_def split: option.splits)

lemma np_ifft_ex: "zs \<noteq> [] \<Longrightarrow> \<exists>cs. np_ifft zs = Inr cs"
  by (auto simp: np_ifft_def split: option.splits)

lemma even_half_len: "even n \<Longrightarrow> 2 \<le> n \<Longrightarrow> 2 * (n div 2 - 1) + 2 = (n::nat)"
  by presburger

lemma length_phases_full_supported:
  "supported n \<Longrightarrow> length ps = n div 2 - 1 \<Longrightarrow>
   length (phases_full n ps) = (if even n then n else 1)"
  using even_half_len [of n] by (auto simp: length_phases_full supported_def)

lemma np_multiply_finite:
  assumes "supported n" "length m = n" "length ps = n div 2 - 1"
  shows "np_multiply (map Fin m) (expj (phases_full n ps)) = Inr (map CFin (spectrum n m ps))"
proof (cases "even n")
  case True
  with assms have len: "length (phases_full n ps) = n"
    by (simp add: length_phases_full_supported)
  have "map2 fcmul (map Fin m) (expj (phases_full n ps)) = map CFin (spectrum n m ps)"
    using len assms True
    by (intro nth_equalityI) (simp_all add: spectrum_def expj_def phase_at_def)
  with len assms show ?thesis
    by (simp add: np_multiply_def expj_def)
next
  case False
  with assms have n: "n = 3" by (simp add: supported_def)
  with assms have ps: "ps = []" by simp
  have "map (\<lambda>u. fcmul u (CFin (cis 0))) (map Fin m) = map CFin (spectrum n m ps)"
    using assms False
    by (intro nth_equalityI) (simp_all add: spectrum_def phase_at_def)
  with n ps assms show ?thesis
    by (simp add: np_multiply_def expj_def phases_full_def)
qed

lemma np_multiply_nan:
  assumes "supported n" "length md = n" "length ps = n div 2 - 1" "\<forall>a \<in> set md. a = NaN"
  shows "np_multiply md (expj (phases_full n ps)) = Inr (replicate n CNaN)"
proof -
  from assms have md: "md = replicate n NaN"
    by (metis replicate_eqI)
  show ?thesis
  proof (cases "even n")
    case True
    with assms have len: "length (phases_full n ps) = n"
      by (simp add: length_phases_full_supported)
    have "map2 fcmul md (expj (phases_full n ps)) = replicate n CNaN"
      using len assms by (intro nth_equalityI) (simp_all add: expj_def md)
    with len assms show ?thesis
      by (simp add: np_multiply_def expj_def)
  next
    case False
    with assms have n: "n = 3" by (simp add: supported_def)
    with assms have ps: "ps = []" by simp
    show ?thesis using n ps assms
      by (simp add: np_multiply_def expj_def phases_full_def md)
  qed
qed

lemma length_spectrum [simp]: "length (spectrum n m ps) = n"
  by (simp add: spectrum_def)

lemma cfins_replicate_CNaN: "0 < n \<Longrightarrow> cfins (replicate n CNaN) = None"
  by (cases n) simp_all

lemma supported_pos: "supported n \<Longrightarrow> 2 \<le> n"
  by (auto simp: supported_def)

lemma surrogate_finite:
  assumes "supported n" "length m = n" "length ps = n div 2 - 1"
  shows "surrogate n (map Fin m) ps = map (\<lambda>z. Fin (Re z)) (idft (spectrum n m ps))"
proof -
  have "spectrum n m ps \<noteq> []"
    using supported_pos [OF assms(1)] by (auto simp: spectrum_def)
  then show ?thesis
    by (simp add: surrogate_def np_multiply_finite [OF assms] np_ifft_def)
qed

lemma surrogate_nan:
  assumes "supported n" "length md = n" "length ps = n div 2 - 1" "\<forall>a \<in> set md. a = NaN"
  shows "surrogate n md ps = replicate n NaN"
  using supported_pos [OF assms(1)]
  by (simp add: surrogate_def np_multiply_nan [OF assms] np_ifft_def cfins_replicate_CNaN)

lemma surrogate_pair_supported:
  assumes "supported n" "length modx = n" "length mody = n"
    and fin: "(\<exists>m. modx = map Fin m) \<or> (\<forall>a \<in> set modx. a = NaN)"
            "(\<exists>m. mody = map Fin m) \<or> (\<forall>a \<in> set mody. a = NaN)"
  shows "\<exists>px py g'. length px = n div 2 - 1 \<and> length py = n div 2 - 1 \<and>
           surrogate_pair R n modx mody g = (Inr (surrogate n modx px, surrogate n mody py), g')"
proof -
  have sz: "0 \<le> int n div 2 - 1" using supported_pos [OF assms(1)] by simp
  have nn: "nat (int n div 2 - 1) = n div 2 - 1" by (simp add: nat_diff_distrib' zdiv_int)
  obtain px g1 where px: "np_random_uniform R (- pi) pi (int n div 2 - 1) g = Inr (px, g1)"
    using np_random_uniform_ex [OF sz, of R "- pi" pi g] by auto
  obtain py g2 where py: "np_random_uniform R (- pi) pi (int n div 2 - 1) g1 = Inr (py, g2)"
    using np_random_uniform_ex [OF sz, of R "- pi" pi g1] by auto
  have lx: "length px = n div 2 - 1" using np_random_uniform_Inr [OF px] nn by simp
  have ly: "length py = n div 2 - 1" using np_random_uniform_Inr [OF py] nn by simp
  have mx: "\<exists>c. np_multiply modx (expj (phases_full n px)) = Inr c \<and> length c = n"
    using fin(1) np_multiply_finite [OF assms(1) _ lx] np_multiply_nan [OF assms(1,2) lx] assms(2)
    by (auto simp: spectrum_def)
  have my: "\<exists>c. np_multiply mody (expj (phases_full n py)) = Inr c \<and> length c = n"
    using fin(2) np_multiply_finite [OF assms(1) _ ly] np_multiply_nan [OF assms(1,3) ly] assms(3)
    by (auto simp: spectrum_def)
  from mx obtain cx where cx: "np_multiply modx (expj (phases_full n px)) = Inr cx" "length cx = n" by blast
  from my obtain cy where cy: "np_multiply mody (expj (phases_full n py)) = Inr cy" "length cy = n" by blast
  have "cx \<noteq> []" "cy \<noteq> []" using cx(2) cy(2) supported_pos [OF assms(1)] by auto
  then obtain sx sy where sx: "np_ifft cx = Inr sx" and sy: "np_ifft cy = Inr sy"
    using np_ifft_ex by blast
  have "surrogate_pair R n modx mody g = (Inr (surrogate n modx px, surrogate n mody py), g2)"
    by (simp add: surrogate_pair_def px py cx cy sx sy surrogate_def)
  with lx ly show ?thesis by blast
qed

lemma surrogate_pair_small:
  "n \<le> 1 \<Longrightarrow> surrogate_pair R n modx mody g
     = (Inl (ValueError ''negative dimensions are not allowed''), g)"
  by (simp add: surrogate_pair_def np_random_uniform_neg)

lemma odd_half_len: "odd n \<Longrightarrow> 5 \<le> n \<Longrightarrow> 2 * (n div 2 - 1) + 1 = (n::nat) - 2"
  by presburger

lemma surrogate_pair_odd:
  assumes "odd n" "5 \<le> n" "length modx = n"
  shows "fst (surrogate_pair R n modx mody g)
     = Inl (ValueError ''operands could not be broadcast together'')"
proof -
  have sz: "0 \<le> int n div 2 - 1" using assms(2) by simp
  have nn: "nat (int n div 2 - 1) = n div 2 - 1" by (simp add: nat_diff_distrib' zdiv_int)
  obtain px g1 where px: "np_random_uniform R (- pi) pi (int n div 2 - 1) g = Inr (px, g1)"
    using np_random_uniform_ex [OF sz, of R "- pi" pi g] by auto
  obtain py g2 where py: "np_random_uniform R (- pi) pi (int n div 2 - 1) g1 = Inr (py, g2)"
    using np_random_uniform_ex [OF sz, of R "- pi" pi g1] by auto
  have lx: "length px = n div 2 - 1" using np_random_uniform_Inr [OF px] nn by simp
  have "length (phases_full n px) = n - 2"
    using assms(1,2) odd_half_len [of n] by (simp add: length_phases_full lx)
  moreover have "n - 2 \<noteq> 1" "n \<noteq> n - 2" "n \<noteq> 1" using assms(2) by arith+
  ultimately have "np_multiply modx (expj (phases_full n px))
      = Inl (ValueError ''operands could not be broadcast together'')"
    using assms(3) by (simp add: np_multiply_def expj_def)
  then show ?thesis
    by (simp add: surrogate_pair_def px py)
qed

lemma unsupported_cases: "\<not> supported n \<Longrightarrow> n \<le> 1 \<or> (odd n \<and> 5 \<le> n)"
  unfolding supported_def by presburger

lemma surrogate_pair_unsupported:
  assumes "\<not> supported n" "length modx = n"
  shows "\<exists>e. fst (surrogate_pair R n modx mody g) = Inl e"
  using unsupported_cases [OF assms(1)] surrogate_pair_small [of n R modx mody g]
    surrogate_pair_odd [of n modx R mody g] assms(2)
  by auto

lemma surrogates_supported:
  assumes "supported n" "length modx = n" "length mody = n"
    and "uniform_nan modx" "uniform_nan mody"
  shows "\<exists>cols g'. surrogates R n modx mody k g = (Inr cols, g') \<and> length cols = k \<and>
           (\<forall>c \<in> set cols. \<exists>px py. length px = n div 2 - 1 \<and> length py = n div 2 - 1 \<and>
               c = (surrogate n modx px, surrogate n mody py))"
proof (induction k arbitrary: g)
  case 0
  show ?case by simp
next
  case (Suc k)
  obtain px py g1 where p: "length px = n div 2 - 1" "length py = n div 2 - 1"
      "surrogate_pair R n modx mody g = (Inr (surrogate n modx px, surrogate n mody py), g1)"
    using surrogate_pair_supported [OF assms(1-3), of R g] assms(4,5)
    unfolding uniform_nan_def by blast
  obtain cols g2 where c: "surrogates R n modx mody k g1 = (Inr cols, g2)" "length cols = k"
      "\<forall>c \<in> set cols. \<exists>px py. length px = n div 2 - 1 \<and> length py = n div 2 - 1 \<and>
               c = (surrogate n modx px, surrogate n mody py)"
    using Suc [of g1] by blast
  have "surrogates R n modx mody (Suc k) g
      = (Inr ((surrogate n modx px, surrogate n mody py) # cols), g2)"
    by (simp add: p(3) c(1))
  with p(1,2) c(2,3) show ?case by auto
qed

lemma surrogates_unsupported:
  assumes "\<not> supported n" "length modx = n" "0 < k"
  shows "\<exists>e. fst (surrogates R n modx mody k g) = Inl e"
proof -
  from assms(3) obtain k' where k: "k = Suc k'" by (cases k) auto
  obtain e where "fst (surrogate_pair R n modx mody g) = Inl e"
    using surrogate_pair_unsupported [OF assms(1,2), of R mody g] by blast
  then show ?thesis
    by (cases "surrogate_pair R n modx mody g") (simp add: k)
qed

lemma surrogates_length:
  "surrogates R n modx mody k g = (Inr cols, g') \<Longrightarrow> length cols = k"
  by (induction k arbitrary: g cols) (auto split: prod.splits sum.splits)

lemma np_sum_Fin [simp]: "np_sum (map Fin rs) = Fin (sum_list rs)"
  by (induction rs) simp_all

lemma np_sum_NaN: "NaN \<in> set xs \<Longrightarrow> np_sum xs = NaN"
proof (induction xs)
  case Nil
  then show ?case by simp
next
  case (Cons a xs)
  then show ?case by (cases a; cases "np_sum xs") auto
qed

lemma np_mean_Fin: "rs \<noteq> [] \<Longrightarrow> np_mean (map Fin rs) = Fin (rmean rs)"
  by (simp add: np_mean_def rmean_def)

lemma np_mean_NaN: "NaN \<in> set xs \<Longrightarrow> np_mean xs = NaN"
  by (simp add: np_mean_def np_sum_NaN)

lemma rmean_squares_nonneg: "0 \<le> rmean (map (\<lambda>a. (a - c) * (a - c)) rs)"
  unfolding rmean_def by (intro divide_nonneg_nonneg sum_list_nonneg) auto

lemma np_std_Fin: "rs \<noteq> [] \<Longrightarrow> np_std (map Fin rs) = Fin (rstd rs)"
proof -
  assume ne: "rs \<noteq> []"
  have "map (\<lambda>a. fmul (fsub a (Fin (rmean rs))) (fsub a (Fin (rmean rs)))) (map Fin rs)
      = map Fin (map (\<lambda>a. (a - rmean rs) * (a - rmean rs)) rs)"
    by simp
  then show ?thesis
    using ne rmean_squares_nonneg [of "rmean rs" rs]
    by (simp add: np_std_def np_mean_Fin rstd_def del: map_map)
qed

lemma zscore_Fin:
  "rs \<noteq> [] \<Longrightarrow> zscore (map Fin rs) =
     (if rstd rs = 0 then replicate (length rs) NaN
      else map Fin (map (\<lambda>a. (a - rmean rs) / rstd rs) rs))"
  by (auto simp: zscore_def np_mean_Fin np_std_Fin map_replicate_const [symmetric] simp del: map_replicate_const)

lemma zscore_NaN: "NaN \<in> set xs \<Longrightarrow> zscore xs = replicate (length xs) NaN"
  by (simp add: zscore_def np_mean_NaN map_replicate_const)

lemma zscore_Nil [simp]: "zscore [] = []"
  by (simp add: zscore_def)

lemma uniform_nan_replicate [simp]: "uniform_nan (replicate n NaN)"
  by (simp add: uniform_nan_def)

lemma uniform_nan_map_Fin [simp]: "uniform_nan (map Fin rs)"
  by (auto simp: uniform_nan_def)

lemma uniform_nan_Nil [simp]: "uniform_nan []"
  by (simp add: uniform_nan_def)

lemma uniform_nan_zscore_Fin: "uniform_nan (zscore (map Fin rs))"
  by (cases "rs = []") (simp_all add: zscore_Fin del: map_map)

lemma uniform_nan_cases:
  "uniform_nan xs \<Longrightarrow> (\<exists>rs. xs = map Fin rs) \<or> (xs \<noteq> [] \<and> xs = replicate (length xs) NaN)"
  unfolding uniform_nan_def
  by (metis length_0_conv list.simps(8) replicate_eqI)

lemma np_fft_Fin: "rs \<noteq> [] \<Longrightarrow> np_fft (map Fin rs) = Inr (map CFin (dft (map complex_of_real rs)))"
  by (simp add: np_fft_def)

lemma np_fft_NaN: "NaN \<in> set xs \<Longrightarrow> np_fft xs = Inr (replicate (length xs) CNaN)"
  using fins_None [of xs] by (auto simp: np_fft_def)

lemma uniform_nan_fft:
  assumes "uniform_nan xs" "np_fft xs = Inr xf"
  shows "uniform_nan (map cabs xf)"
proof -
  from uniform_nan_cases [OF assms(1)] show ?thesis
  proof
    assume "\<exists>rs. xs = map Fin rs"
    then obtain rs where rs: "xs = map Fin rs" by blast
    with assms(2) have "rs \<noteq> []" by (auto simp: np_fft_def)
    with assms(2) rs have "map cabs xf = map Fin (map cmod (dft (map complex_of_real rs)))"
      by (auto simp: np_fft_Fin)
    then show ?thesis by (simp del: map_map)
  next
    assume a: "xs \<noteq> [] \<and> xs = replicate (length xs) NaN"
    then have "NaN \<in> set xs" by (metis length_greater_0_conv in_set_replicate less_numeral_extra(3))
    with assms(2) show ?thesis by (auto simp: np_fft_NaN)
  qed
qed

lemma map2_same: "map2 f (map g xs) (map h xs) = map (\<lambda>c. f (g c) (h c)) xs"
  by (induction xs) simp_all

lemma length_np_sort [simp]: "length (np_sort xs) = length xs"
proof -
  have "length (finite_part xs) + length (filter (\<lambda>a. a = NaN) xs) = length xs"
    by (induction xs) (auto simp: finite_part_def split: float64.splits)
  then show ?thesis by (simp add: np_sort_def)
qed

lemma getitem_Inr_iff:
  "(\<exists>v. getitem xs i = Inr v) \<longleftrightarrow> - int (length xs) \<le> i \<and> i < int (length xs)"
  by (auto simp: getitem_def Let_def)

lemma map2_corrcoef:
  "map2 corrcoef (map (zscore \<circ> fst) cols) (map (zscore \<circ> snd) cols) = correlations cols"
  by (simp add: correlations_def map2_same)

lemma ebisuzaki_eq:
  assumes "length x0 = length y0" "x0 \<noteq> []" "0 \<le> nsim"
    and "surrogates R (length x0) (magnitudes x0) (magnitudes y0) (nat nsim)
           (rng (np_random_seed R seed w0)) = (out, g)"
  shows "ebisuzaki R x0 y0 level nsim seed w0 =
     (case out of
        Inl e \<Rightarrow> (Inl e, (np_random_seed R seed w0)\<lparr>rng := g\<rparr>)
      | Inr cols \<Rightarrow>
         (let r_real = corrcoef (zscore (map Fin x0)) (zscore (map Fin y0));
              rSim = correlations cols;
              F = fdiv (Fin (of_int (count_larger rSim r_real))) (Fin (of_int nsim))
          in case getitem (np_sort (map fabs rSim)) (cv_index nsim level) of
            Inl e \<Rightarrow> (Inl e, (np_random_seed R seed w0)\<lparr>rng := g\<rparr>)
          | Inr cv \<Rightarrow> (Inr (F, rSim, r_real),
               (np_random_seed R seed w0)\<lparr>rng := g,
                  stdout := stdout (np_random_seed R seed w0) @ report r_real cv F\<rparr>)))"
proof -
  have "zscore (map Fin x0) \<noteq> []" "zscore (map Fin y0) \<noteq> []"
    using assms(1,2) by (auto simp: zscore_def)
  then obtain xf yf where xf: "np_fft (zscore (map Fin x0)) = Inr xf"
      and yf: "np_fft (zscore (map Fin y0)) = Inr yf"
    using np_fft_ex by blast
  show ?thesis
  proof (cases out)
    case (Inl e)
    with assms xf yf show ?thesis
      by (simp add: ebisuzaki_def Let_def magnitudes_def)
  next
    case (Inr cols)
    show ?thesis
    proof (cases "getitem (np_sort (map fabs (correlations cols)))
                    (cv_index nsim level)")
      case (Inl e)
      with Inr assms xf yf show ?thesis
        by (simp add: ebisuzaki_def Let_def magnitudes_def map2_corrcoef
              cv_index_def [symmetric] del: fdiv.simps map_map)
    next
      case (Inr cv)
      with \<open>out = Inr cols\<close> assms xf yf show ?thesis
        by (simp add: ebisuzaki_def Let_def magnitudes_def map2_corrcoef report_def
              cv_index_def [symmetric] del: fdiv.simps map_map)
    qed
  qed
qed

lemma ebisuzaki_mismatch:
  "length x0 \<noteq> length y0 \<Longrightarrow> ebisuzaki R x0 y0 level nsim seed w0
     = (Inl (ValueError ''Size of x and y must be the same''), np_random_seed R seed w0)"
  by (simp add: ebisuzaki_def Let_def)

lemma ebisuzaki_empty:
  "x0 = [] \<Longrightarrow> y0 = [] \<Longrightarrow> ebisuzaki R x0 y0 level nsim seed w0
     = (Inl (ValueError ''Invalid number of FFT data points (0) specified.''),
        np_random_seed R seed w0)"
  by (simp add: ebisuzaki_def Let_def np_fft_def)

lemma ebisuzaki_negative:
  assumes "length x0 = length y0" "x0 \<noteq> []" "nsim < 0"
  shows "ebisuzaki R x0 y0 level nsim seed w0
     = (Inl (ValueError ''negative dimensions are not allowed''), np_random_seed R seed w0)"
proof -
  have "zscore (map Fin x0) \<noteq> []" "zscore (map Fin y0) \<noteq> []"
    using assms(1,2) by (auto simp: zscore_def)
  then obtain xf yf where xf: "np_fft (zscore (map Fin x0)) = Inr xf"
      and yf: "np_fft (zscore (map Fin y0)) = Inr yf"
    using np_fft_ex by blast
  with assms show ?thesis
    by (simp add: ebisuzaki_def Let_def)
qed

lemma ebisuzaki_fst_rng:
  assumes "rng (np_random_seed R seed w1) = rng (np_random_seed R seed w2)"
  shows "fst (ebisuzaki R x0 y0 level nsim seed w1) = fst (ebisuzaki R x0 y0 level nsim seed w2)
       \<and> rng (snd (ebisuzaki R x0 y0 level nsim seed w1))
           = rng (snd (ebisuzaki R x0 y0 level nsim seed w2))"
proof (cases "length x0 = length y0")
  case False
  with assms show ?thesis by (simp add: ebisuzaki_mismatch)
next
  case len: True
  show ?thesis
  proof (cases "x0 = []")
    case True
    with len assms show ?thesis by (simp add: ebisuzaki_empty)
  next
    case ne: False
    show ?thesis
    proof (cases "nsim < 0")
      case True
      with len ne assms show ?thesis by (simp add: ebisuzaki_negative)
    next
      case False
      then have ns: "0 \<le> nsim" by simp
      obtain out g where s: "surrogates R (length x0) (magnitudes x0) (magnitudes y0) (nat nsim)
           (rng (np_random_seed R seed w1)) = (out, g)"
        by (cases "surrogates R (length x0) (magnitudes x0) (magnitudes y0) (nat nsim)
           (rng (np_random_seed R seed w1))")
      show ?thesis
        using s assms
        by (simp add: ebisuzaki_eq [OF len ne ns s] ebisuzaki_eq [OF len ne ns s [unfolded assms]]
              Let_def split: sum.splits)
    qed
  qed
qed

section \<open>A worked example of length two\<close>

lemma cis_neg_pi: "cis (- pi) = - 1"
  by (simp add: complex_eq_iff)

lemma zscore_1_2: "zscore [Fin 1, Fin 2] = [Fin (- 1), Fin 1]"
  by (simp add: zscore_def np_mean_def np_std_def Let_def real_sqrt_divide)

lemma zscore_2_1: "zscore [Fin 2, Fin 1] = [Fin 1, Fin (- 1)]"
  by (simp add: zscore_def np_mean_def np_std_def Let_def real_sqrt_divide)

lemma zscore_1_m1: "zscore [Fin 1, Fin (- 1)] = [Fin 1, Fin (- 1)]"
  by (simp add: zscore_def np_mean_def np_std_def Let_def)

lemma magnitudes_1_2: "magnitudes [1, 2] = [Fin 0, Fin 2]"
  by (simp add: magnitudes_def zscore_1_2 np_fft_def dft_def lessThan_Suc cis_neg_pi)

lemma magnitudes_2_1: "magnitudes [2, 1] = [Fin 0, Fin 2]"
  by (simp add: magnitudes_def zscore_2_1 np_fft_def dft_def lessThan_Suc cis_neg_pi)

lemma corrcoef_example: "corrcoef [Fin (- 1), Fin 1] [Fin 1, Fin (- 1)] = Fin (- 1)"
  by (simp add: corrcoef_def np_mean_def)

lemma corrcoef_example': "corrcoef [Fin 1, Fin (- 1)] [Fin 1, Fin (- 1)] = Fin 1"
  by (simp add: corrcoef_def np_mean_def)

lemma surrogate_pair_example:
  "surrogate_pair R (Suc (Suc 0)) [Fin 0, Fin 2] [Fin 0, Fin 2] g
     = (Inr ([Fin 1, Fin (- 1)], [Fin 1, Fin (- 1)]), g)"
  by (simp add: surrogate_pair_def np_random_uniform_def phases_full_def expj_def
        np_multiply_def np_ifft_def idft_def lessThan_Suc)

lemma rng_toy [simp]:
  "rng_seed toy s = unat s" "rng_fresh toy e = (e, Suc e)"
  "rng_double toy g = (if even g then 3 / 4 else 1 / 4, Suc g)"
  by (simp_all add: toy_def)

lemma surrogates_example:
  "surrogates R (length [1, 2 :: real]) (magnitudes [1, 2]) (magnitudes [2, 1]) (nat 1) g
     = (Inr [([Fin 1, Fin (- 1)], [Fin 1, Fin (- 1)])], g)"
  by (simp add: surrogate_pair_example magnitudes_1_2 magnitudes_2_1)

lemma correlations_example:
  "correlations [([Fin 1, Fin (- 1)], [Fin 1, Fin (- 1)])] = [Fin 1]"
  by (simp add: correlations_def zscore_1_m1 corrcoef_example')

lemma cv_index_one:
  assumes "1 / 2 ^ 50 \<le> level" "level \<le> 1"
  shows "cv_index 1 level = 0"
  using cv_index_range [of 1 level] assms by simp

lemma cv_index_level_one: "cv_index 1 1 = 0"
  by (rule cv_index_one) simp_all

lemma cv_index_example: "cv_index 1 (1 / 20) = 0"
  by (rule cv_index_one) simp_all

lemma ebisuzaki_example:
  assumes "cv_index 1 level = 0"
  shows "ebisuzaki toy [1, 2] [2, 1] level 1 None world0
     = (Inr (Fin 0, [Fin 1], Fin (- 1)),
        \<lparr>rng = 100, entropy = 101, stdout = report (Fin (- 1)) (Fin 1) (Fin 0)\<rparr>)"
  by (simp add: ebisuzaki_eq [OF _ _ _ surrogates_example] Let_def correlations_example
      zscore_1_2 zscore_2_1 corrcoef_example count_larger_def np_sort_def finite_part_def
      assms getitem_def
      np_random_seed_def world0_def)

lemma ebisuzaki_example_index_error:
  assumes "cv_index 1 level = 1"
  shows "ebisuzaki toy [1, 2] [2, 1] level 1 None world0
     = (Inl (IndexError ''index out of bounds''), \<lparr>rng = 100, entropy = 101, stdout = []\<rparr>)"
  by (simp add: ebisuzaki_eq [OF _ _ _ surrogates_example] Let_def correlations_example
      zscore_1_2 zscore_2_1 corrcoef_example count_larger_def np_sort_def finite_part_def
      assms getitem_def
      np_random_seed_def world0_def)

section \<open>The outcomes of a call\<close>

text \<open>
  A level that is not positive: \<open>1 - level\<close> is at least 1 and the index is at least
  \<open>nsim\<close>.
\<close>

lemma float64_round_nonpos:
  assumes "x \<le> 0"
  shows "float64_round x \<le> 0"
proof (cases "x = 0")
  case True
  then show ?thesis by simp
next
  case False
  then have "float64_round x \<le> of_int 0 * ulp64 x"
    using assms by (intro float64_round_grid_le) simp_all
  then show ?thesis by simp
qed

lemma float64_round_ge_int:
  assumes "0 < m" "m < 2 ^ 53" "of_int m \<le> x"
  shows "of_int m \<le> float64_round x"
proof -
  have x1: "1 \<le> x" using assms(1,3) by linarith
  then have x0: "x \<noteq> 0" "\<bar>x\<bar> = x" by simp_all
  define e where "e = \<lfloor>log 2 x\<rfloor>"
  have "0 \<le> log 2 x" using x1 by simp
  then have e0: "0 \<le> e" by (simp add: e_def)
  then have u: "ulp64 x = 2 powr (of_int e - 52)"
    by (simp add: ulp64_def x0 e_def [symmetric] max_def)
  show ?thesis
  proof (cases "e \<le> 52")
    case True
    define n where "n = nat (52 - e)"
    have en: "of_int e - 52 = - real n" using True by (simp add: n_def)
    have u': "ulp64 x = 1 / 2 ^ n" unfolding u en by (rule two_powr_neg)
    have "of_int (m * 2 ^ n) * ulp64 x \<le> float64_round x"
      using x0 assms(3) by (intro float64_round_grid_ge) (simp_all add: u')
    then show ?thesis by (simp add: u')
  next
    case False
    then have e53: "53 \<le> e" by simp
    have "2 powr of_int e \<le> 2 powr log 2 x"
      by (rule powr_mono) (simp_all add: e_def)
    then have le: "2 powr of_int e \<le> x" using x1 by simp
    have "(2::real) powr of_int e = 2 powr (52 + (of_int e - 52))" by simp
    also have "\<dots> = 2 powr 52 * 2 powr (of_int e - 52)" by (rule powr_add)
    finally have k: "of_int (2 ^ 52) * ulp64 x = 2 powr of_int e" by (simp add: u)
    have "of_int (2 ^ 52) * ulp64 x \<le> x" using le by (simp only: k)
    then have "of_int (2 ^ 52) * ulp64 x \<le> float64_round x"
      by (rule float64_round_grid_ge [OF x0(1)])
    then have "2 powr of_int e \<le> float64_round x" by (simp only: k)
    moreover have "(2::real) powr 53 \<le> 2 powr of_int e"
      using e53 by (intro powr_mono) simp_all
    moreover have "real_of_int m < 2 ^ 53"
      using assms(2) by (metis of_int_less_iff of_int_numeral of_int_power)
    ultimately show ?thesis by simp
  qed
qed

lemma cv_index_nonpos:
  assumes "0 < nsim" "nsim < 2 ^ 53" "level \<le> 0"
  shows "nsim \<le> cv_index nsim level"
proof -
  define a where "a = float64_round (1 - float64_round level)"
  define r where "r = float64_round (real_of_int nsim * a)"
  have idx: "cv_index nsim level = py_int r"
    using float64_round_int [OF assms(1,2)]
    by (simp add: cv_index_def float64_mul_def float64_sub_def r_def a_def)
  have "float64_round level \<le> 0" using assms(3) by (rule float64_round_nonpos)
  then have "of_int 1 \<le> float64_round (1 - float64_round level)"
    by (intro float64_round_ge_int) simp_all
  then have a1: "1 \<le> a" by (simp add: a_def)
  have "real_of_int nsim * 1 \<le> real_of_int nsim * a"
    using a1 assms(1) by (intro mult_left_mono) simp_all
  then have "real_of_int nsim \<le> r"
    unfolding r_def using assms(1,2) by (intro float64_round_ge_int) simp_all
  moreover from this have "0 \<le> r" using assms(1) by linarith
  ultimately show ?thesis by (simp add: idx py_int_def le_floor_iff)
qed

lemma length_correlations [simp]: "length (correlations cols) = length cols"
  by (simp add: correlations_def)

lemma uniform_nan_magnitudes: "uniform_nan (magnitudes x0)"
proof (cases "np_fft (zscore (map Fin x0))")
  case (Inl e)
  then show ?thesis by (simp add: magnitudes_def)
next
  case (Inr xf)
  with uniform_nan_fft [OF uniform_nan_zscore_Fin Inr] show ?thesis
    by (simp add: magnitudes_def)
qed

lemma length_magnitudes: "x0 \<noteq> [] \<Longrightarrow> length (magnitudes x0) = length x0"
proof -
  assume "x0 \<noteq> []"
  then have "zscore (map Fin x0) \<noteq> []" by (auto simp: zscore_def)
  then obtain xf where xf: "np_fft (zscore (map Fin x0)) = Inr xf"
    using np_fft_ex by blast
  with np_fft_Inr_length [OF xf] show ?thesis by (simp add: magnitudes_def)
qed

text \<open>What a call with well-shaped inputs does, by the number of simulations and the index.\<close>

lemma ebisuzaki_zero:
  assumes "length x0 = length y0" "x0 \<noteq> []"
  shows "fst (ebisuzaki R x0 y0 level 0 seed w0) = Inl (IndexError ''index out of bounds'')"
proof -
  have "surrogates R (length x0) (magnitudes x0) (magnitudes y0) (nat 0)
           (rng (np_random_seed R seed w0)) = (Inr [], rng (np_random_seed R seed w0))"
    by simp
  from ebisuzaki_eq [OF assms _ this, of level] show ?thesis
    by (simp add: Let_def correlations_def np_sort_def finite_part_def getitem_def)
qed

lemma ebisuzaki_supported:
  assumes "length x0 = length y0" "supported (length x0)" "0 < nsim"
  shows "\<exists>cols g. surrogates R (length x0) (magnitudes x0) (magnitudes y0) (nat nsim)
           (rng (np_random_seed R seed w0)) = (Inr cols, g) \<and> length cols = nat nsim \<and>
           (\<forall>c \<in> set cols. \<exists>px py. length px = length x0 div 2 - 1 \<and> length py = length x0 div 2 - 1 \<and>
               c = (surrogate (length x0) (magnitudes x0) px, surrogate (length x0) (magnitudes y0) py)) \<and>
           ebisuzaki R x0 y0 level nsim seed w0 =
           (let r_real = corrcoef (zscore (map Fin x0)) (zscore (map Fin y0));
              rSim = correlations cols;
              F = fdiv (Fin (of_int (count_larger rSim r_real))) (Fin (of_int nsim))
            in case getitem (np_sort (map fabs rSim)) (cv_index nsim level) of
              Inl e \<Rightarrow> (Inl e, (np_random_seed R seed w0)\<lparr>rng := g\<rparr>)
            | Inr cv \<Rightarrow> (Inr (F, rSim, r_real),
               (np_random_seed R seed w0)\<lparr>rng := g,
                  stdout := stdout (np_random_seed R seed w0) @ report r_real cv F\<rparr>))"
proof -
  have ne: "x0 \<noteq> []" "y0 \<noteq> []" using supported_pos [OF assms(2)] assms(1) by auto
  obtain cols g where c: "surrogates R (length x0) (magnitudes x0) (magnitudes y0) (nat nsim)
           (rng (np_random_seed R seed w0)) = (Inr cols, g)" "length cols = nat nsim"
      "\<forall>c \<in> set cols. \<exists>px py. length px = length x0 div 2 - 1 \<and> length py = length x0 div 2 - 1 \<and>
               c = (surrogate (length x0) (magnitudes x0) px, surrogate (length x0) (magnitudes y0) py)"
    using surrogates_supported [OF assms(2) length_magnitudes [OF ne(1)] _
        uniform_nan_magnitudes uniform_nan_magnitudes, of y0 R "nat nsim"
        "rng (np_random_seed R seed w0)"] length_magnitudes [OF ne(2)] assms(1)
    by auto
  have ns: "0 \<le> nsim" using assms(3) by simp
  show ?thesis
    using c ebisuzaki_eq [OF assms(1) ne(1) ns c(1), of level] by auto
qed

lemma ebisuzaki_unsupported:
  assumes "length x0 = length y0" "\<not> supported (length x0)" "0 < nsim"
  shows "\<exists>e. fst (ebisuzaki R x0 y0 level nsim seed w0) = Inl e"
proof (cases "x0 = []")
  case True
  with assms(1) show ?thesis by (simp add: ebisuzaki_empty)
next
  case False
  obtain out g where s: "surrogates R (length x0) (magnitudes x0) (magnitudes y0) (nat nsim)
           (rng (np_random_seed R seed w0)) = (out, g)"
    by (cases "surrogates R (length x0) (magnitudes x0) (magnitudes y0) (nat nsim)
           (rng (np_random_seed R seed w0))")
  obtain e where "out = Inl e"
    using surrogates_unsupported [OF assms(2) length_magnitudes [OF False], of "nat nsim" R
        "magnitudes y0" "rng (np_random_seed R seed w0)"] assms(3) s
    by auto
  with ebisuzaki_eq [OF assms(1) False _ s, of level] assms(3) show ?thesis by simp
qed

lemma ebisuzaki_InrD:
  assumes "fst (ebisuzaki R x0 y0 level nsim seed w0) = Inr (F, rSim, r_real)"
  obtains cols g cv where "length x0 = length y0" "supported (length x0)" "0 < nsim"
    "surrogates R (length x0) (magnitudes x0) (magnitudes y0) (nat nsim)
           (rng (np_random_seed R seed w0)) = (Inr cols, g)"
    "length cols = nat nsim"
    "\<forall>c \<in> set cols. \<exists>px py. length px = length x0 div 2 - 1 \<and> length py = length x0 div 2 - 1 \<and>
        c = (surrogate (length x0) (magnitudes x0) px, surrogate (length x0) (magnitudes y0) py)"
    "rSim = correlations cols"
    "r_real = corrcoef (zscore (map Fin x0)) (zscore (map Fin y0))"
    "F = fdiv (Fin (of_int (count_larger rSim r_real))) (Fin (of_int nsim))"
    "getitem (np_sort (map fabs rSim)) (cv_index nsim level) = Inr cv"
    "snd (ebisuzaki R x0 y0 level nsim seed w0) = (np_random_seed R seed w0)\<lparr>rng := g,
        stdout := stdout (np_random_seed R seed w0) @ report r_real cv F\<rparr>"
proof -
  have len: "length x0 = length y0"
    using assms by (cases "length x0 = length y0") (simp_all add: ebisuzaki_mismatch)
  have ne: "x0 \<noteq> []" using assms len by (cases "x0 = []") (simp_all add: ebisuzaki_empty)
  have ns: "0 < nsim"
    using assms ebisuzaki_negative [OF len ne, of nsim R level seed w0]
      ebisuzaki_zero [OF len ne, of R level seed w0]
    by (cases "nsim < 0"; cases "nsim = 0") auto
  have sup: "supported (length x0)"
    using assms ebisuzaki_unsupported [OF len _ ns, of R level seed w0] by auto
  from ebisuzaki_supported [OF len sup ns, of R seed w0 level]
  obtain cols g where c: "surrogates R (length x0) (magnitudes x0) (magnitudes y0) (nat nsim)
           (rng (np_random_seed R seed w0)) = (Inr cols, g)" "length cols = nat nsim"
     "\<forall>c \<in> set cols. \<exists>px py. length px = length x0 div 2 - 1 \<and> length py = length x0 div 2 - 1 \<and>
        c = (surrogate (length x0) (magnitudes x0) px, surrogate (length x0) (magnitudes y0) py)"
     and e: "ebisuzaki R x0 y0 level nsim seed w0 =
           (let r_real = corrcoef (zscore (map Fin x0)) (zscore (map Fin y0));
              rSim = correlations cols;
              F = fdiv (Fin (of_int (count_larger rSim r_real))) (Fin (of_int nsim))
            in case getitem (np_sort (map fabs rSim)) (cv_index nsim level) of
              Inl e \<Rightarrow> (Inl e, (np_random_seed R seed w0)\<lparr>rng := g\<rparr>)
            | Inr cv \<Rightarrow> (Inr (F, rSim, r_real),
               (np_random_seed R seed w0)\<lparr>rng := g,
                  stdout := stdout (np_random_seed R seed w0) @ report r_real cv F\<rparr>))"
    by blast
  show ?thesis
  proof (cases "getitem (np_sort (map fabs (correlations cols))) (cv_index nsim level)")
    case (Inl err)
    with e assms show ?thesis by (simp add: Let_def)
  next
    case (Inr cv)
    with e assms have "rSim = correlations cols"
        "r_real = corrcoef (zscore (map Fin x0)) (zscore (map Fin y0))"
        "F = fdiv (Fin (of_int (count_larger rSim r_real))) (Fin (of_int nsim))"
        "snd (ebisuzaki R x0 y0 level nsim seed w0) = (np_random_seed R seed w0)\<lparr>rng := g,
           stdout := stdout (np_random_seed R seed w0) @ report r_real cv F\<rparr>"
      by (auto simp: Let_def simp del: fdiv.simps)
    with that [OF len sup ns c(1,2,3)] Inr show ?thesis by simp
  qed
qed

lemma ebisuzaki_returns:
  assumes "length x0 = length y0" "supported (length x0)" "0 < nsim"
    and "- nsim \<le> cv_index nsim level" "cv_index nsim level < nsim"
  shows "\<exists>res. fst (ebisuzaki R x0 y0 level nsim seed w0) = Inr res"
proof -
  from ebisuzaki_supported [OF assms(1-3), of R seed w0 level]
  obtain cols g where c: "length cols = nat nsim"
     and e: "ebisuzaki R x0 y0 level nsim seed w0 =
           (let r_real = corrcoef (zscore (map Fin x0)) (zscore (map Fin y0));
              rSim = correlations cols;
              F = fdiv (Fin (of_int (count_larger rSim r_real))) (Fin (of_int nsim))
            in case getitem (np_sort (map fabs rSim)) (cv_index nsim level) of
              Inl e \<Rightarrow> (Inl e, (np_random_seed R seed w0)\<lparr>rng := g\<rparr>)
            | Inr cv \<Rightarrow> (Inr (F, rSim, r_real),
               (np_random_seed R seed w0)\<lparr>rng := g,
                  stdout := stdout (np_random_seed R seed w0) @ report r_real cv F\<rparr>))"
    by blast
  obtain cv where "getitem (np_sort (map fabs (correlations cols)))
      (cv_index nsim level) = Inr cv"
    using getitem_Inr_iff [of "np_sort (map fabs (correlations cols))"
        "cv_index nsim level"] c assms(3-5)
    by auto
  with e show ?thesis by (simp add: Let_def)
qed

lemma ebisuzaki_index_error:
  assumes "length x0 = length y0" "supported (length x0)" "0 < nsim"
    and "\<not> (- nsim \<le> cv_index nsim level \<and> cv_index nsim level < nsim)"
  shows "fst (ebisuzaki R x0 y0 level nsim seed w0) = Inl (IndexError ''index out of bounds'')"
proof -
  from ebisuzaki_supported [OF assms(1-3), of R seed w0 level]
  obtain cols g where c: "length cols = nat nsim"
     and e: "ebisuzaki R x0 y0 level nsim seed w0 =
           (let r_real = corrcoef (zscore (map Fin x0)) (zscore (map Fin y0));
              rSim = correlations cols;
              F = fdiv (Fin (of_int (count_larger rSim r_real))) (Fin (of_int nsim))
            in case getitem (np_sort (map fabs rSim)) (cv_index nsim level) of
              Inl e \<Rightarrow> (Inl e, (np_random_seed R seed w0)\<lparr>rng := g\<rparr>)
            | Inr cv \<Rightarrow> (Inr (F, rSim, r_real),
               (np_random_seed R seed w0)\<lparr>rng := g,
                  stdout := stdout (np_random_seed R seed w0) @ report r_real cv F\<rparr>))"
    by blast
  have "getitem (np_sort (map fabs (correlations cols)))
      (cv_index nsim level) = Inl (IndexError ''index out of bounds'')"
    using c assms(3,4) by (auto simp: getitem_def Let_def)
  with e show ?thesis by (simp add: Let_def)
qed

text \<open>
  C3, as the code has it. The function validates neither \<open>nsim\<close> nor \<open>level\<close>. With
  inputs of one non-zero length: a negative \<open>nsim\<close> raises the ValueError of the array
  allocation, after the standardisation, the correlation and the transforms; \<open>nsim = 0\<close>
  raises IndexError at the lookup of the critical value. For a positive \<open>nsim\<close> below
  \<open>2 ^ 53\<close>, on a length the loop supports, and a level of magnitude up to \<open>2 ^ 9\<close>
  (the product \<open>nsim * (1 - level)\<close> is then far from the largest double, and the index
  is a machine integer): the call raises IndexError, after all surrogates were computed,
  exactly when the index \<open>int(nsim * (1 - level))\<close> that the float arithmetic gives is
  outside \<open>[-nsim, nsim - 1]\<close>, and returns normally otherwise. Every level from
  \<open>- 2 ^ 9\<close> to 0 raises that IndexError, and every level from \<open>2 ^ - 50\<close> to 1, with
  1, returns.
\<close>

theorem ebisuzaki_parameters_unchecked:
  assumes "length x0 = length y0" "x0 \<noteq> []"
  shows "(nsim < 0 \<longrightarrow> fst (ebisuzaki R x0 y0 level nsim seed w0)
            = Inl (ValueError ''negative dimensions are not allowed''))
       \<and> (nsim = 0 \<longrightarrow> fst (ebisuzaki R x0 y0 level nsim seed w0)
            = Inl (IndexError ''index out of bounds''))
       \<and> (0 < nsim \<and> nsim < 2 ^ 53 \<and> supported (length x0) \<and> \<bar>level\<bar> \<le> 2 ^ 9 \<longrightarrow>
            (if - nsim \<le> cv_index nsim level \<and> cv_index nsim level < nsim
             then \<exists>res. fst (ebisuzaki R x0 y0 level nsim seed w0) = Inr res
             else fst (ebisuzaki R x0 y0 level nsim seed w0)
                    = Inl (IndexError ''index out of bounds'')))
       \<and> (0 < nsim \<and> nsim < 2 ^ 53 \<and> supported (length x0) \<and> - (2 ^ 9) \<le> level
             \<and> level \<le> 0 \<longrightarrow>
            fst (ebisuzaki R x0 y0 level nsim seed w0) = Inl (IndexError ''index out of bounds''))
       \<and> (0 < nsim \<and> nsim < 2 ^ 53 \<and> supported (length x0) \<and> 1 / 2 ^ 50 \<le> level
             \<and> level \<le> 1 \<longrightarrow>
            (\<exists>res. fst (ebisuzaki R x0 y0 level nsim seed w0) = Inr res))"
proof (intro conjI impI)
  assume "nsim < 0"
  then show "fst (ebisuzaki R x0 y0 level nsim seed w0)
     = Inl (ValueError ''negative dimensions are not allowed'')"
    by (simp add: ebisuzaki_negative [OF assms])
next
  assume "nsim = 0"
  then show "fst (ebisuzaki R x0 y0 level nsim seed w0) = Inl (IndexError ''index out of bounds'')"
    by (simp add: ebisuzaki_zero [OF assms])
next
  assume a: "0 < nsim \<and> nsim < 2 ^ 53 \<and> supported (length x0) \<and> \<bar>level\<bar> \<le> 2 ^ 9"
  show "if - nsim \<le> cv_index nsim level \<and> cv_index nsim level < nsim
             then \<exists>res. fst (ebisuzaki R x0 y0 level nsim seed w0) = Inr res
             else fst (ebisuzaki R x0 y0 level nsim seed w0)
                    = Inl (IndexError ''index out of bounds'')"
    using ebisuzaki_returns [OF assms(1), of nsim level R seed w0]
      ebisuzaki_index_error [OF assms(1), of nsim level R seed w0] a
    by (simp split: if_splits)
next
  assume a: "0 < nsim \<and> nsim < 2 ^ 53 \<and> supported (length x0) \<and> - (2 ^ 9) \<le> level
      \<and> level \<le> 0"
  then have "nsim \<le> cv_index nsim level"
    using cv_index_nonpos [of nsim level] by simp
  then show "fst (ebisuzaki R x0 y0 level nsim seed w0) = Inl (IndexError ''index out of bounds'')"
    using ebisuzaki_index_error [OF assms(1), of nsim level R seed w0] a by simp
next
  assume a: "0 < nsim \<and> nsim < 2 ^ 53 \<and> supported (length x0) \<and> 1 / 2 ^ 50 \<le> level
      \<and> level \<le> 1"
  then have "0 \<le> cv_index nsim level" "cv_index nsim level < nsim"
    using cv_index_range [of nsim level] by simp_all
  then show "\<exists>res. fst (ebisuzaki R x0 y0 level nsim seed w0) = Inr res"
    using ebisuzaki_returns [OF assms(1), of nsim level R seed w0] a by simp
qed

theorem ebisuzaki_parameters_unchecked_witness:
  "length [1, 2 :: real] = length [2, 1 :: real] \<and> [1, 2 :: real] \<noteq> [] \<and>
   (0::int) < 1 \<and> (1::int) < 2 ^ 53 \<and> supported (length [1, 2 :: real]) \<and>
   (1 / 2 ^ 50 :: real) \<le> 1 \<and> (1::real) \<le> 1 \<and>
   (\<exists>res. fst (ebisuzaki toy [1, 2] [2, 1] 1 1 None world0) = Inr res)"
  using ebisuzaki_parameters_unchecked [of "[1, 2]" "[2, 1]" 1 toy 1 None world0]
  by (simp add: supported_def)

text \<open>
  C3 as stated fails: \<open>level = 1\<close> is outside the open interval, and the call returns.
\<close>

theorem ebisuzaki_level_one_returns:
  "\<not> ((0::real) < 1 \<and> (1::real) < 1) \<and>
   fst (ebisuzaki toy [1, 2] [2, 1] 1 1 None world0) = Inr (Fin 0, [Fin 1], Fin (- 1))"
  by (simp add: ebisuzaki_example [OF cv_index_level_one])

section \<open>Length mismatch\<close>

text \<open>
  C7. Inputs of different lengths: the call raises
  \<^verbatim>\<open>ValueError("Size of x and y must be the same")\<close>, whatever the other arguments and
  the world are, and returns no result.
\<close>

theorem ebisuzaki_length_mismatch:
  "length x \<noteq> length y \<Longrightarrow>
   fst (ebisuzaki R x y level nsim seed w)
     = Inl (ValueError ''Size of x and y must be the same'')"
  by (simp add: ebisuzaki_def Let_def)

theorem ebisuzaki_length_mismatch_witness:
  "length [1, 2 :: real] \<noteq> length [1, 2, 3 :: real] \<and>
   fst (ebisuzaki toy [1, 2] [1, 2, 3] (1 / 20) 1000 None world0)
     = Inl (ValueError ''Size of x and y must be the same'')"
  using ebisuzaki_length_mismatch [of "[1, 2]" "[1, 2, 3]" toy "1 / 20" 1000 None world0]
  by simp


section \<open>The p-value\<close>

lemma count_larger_card:
  "count_larger rSim r = int (card {i. i < length rSim \<and> fgt (fabs (rSim ! i)) (fabs r)})"
proof -
  have "count_larger rSim r = int (length (filter (\<lambda>a. fgt (fabs a) (fabs r)) rSim))"
    unfolding count_larger_def by (induction rSim) simp_all
  then show ?thesis by (simp add: length_filter_conv_card)
qed

lemma count_larger_bounds: "0 \<le> count_larger rSim r" "count_larger rSim r \<le> int (length rSim)"
proof -
  have "card {i. i < length rSim \<and> fgt (fabs (rSim ! i)) (fabs r)} \<le> card {..<length rSim}"
    by (intro card_mono) auto
  then show "count_larger rSim r \<le> int (length rSim)" by (simp add: count_larger_card)
  show "0 \<le> count_larger rSim r" by (simp add: count_larger_card)
qed

text \<open>
  C4, as the code has it. Whenever the call returns \<open>(F, rSim, r_real)\<close>, \<open>nsim\<close> is
  positive, \<open>rSim\<close> has \<open>nsim\<close> elements, and \<open>F\<close> is the number of elements of
  \<open>rSim\<close> whose absolute value is strictly larger than \<open>|r_real|\<close> (an equal value does
  not count, and neither does a comparison with NaN), divided by \<open>nsim\<close>; this fraction
  lies between 0 and 1. And the call does return on inputs of one length that the loop
  supports, with a positive \<open>nsim\<close> below \<open>2 ^ 53\<close> and a level from \<open>2 ^ - 50\<close> to 1.
\<close>

theorem ebisuzaki_p_value:
  "(fst (ebisuzaki R x0 y0 level nsim seed w0) = Inr (F, rSim, r_real) \<longrightarrow>
      0 < nsim \<and> length rSim = nat nsim \<and>
      F = Fin (real (card {i. i < length rSim \<and> fgt (fabs (rSim ! i)) (fabs r_real)})
                 / real_of_int nsim) \<and>
      0 \<le> real (card {i. i < length rSim \<and> fgt (fabs (rSim ! i)) (fabs r_real)})
                 / real_of_int nsim \<and>
      real (card {i. i < length rSim \<and> fgt (fabs (rSim ! i)) (fabs r_real)})
                 / real_of_int nsim \<le> 1)
   \<and> (length x0 = length y0 \<and> supported (length x0) \<and> 0 < nsim \<and> nsim < 2 ^ 53
         \<and> 1 / 2 ^ 50 \<le> level \<and> level \<le> 1 \<longrightarrow>
        (\<exists>F rSim r_real. fst (ebisuzaki R x0 y0 level nsim seed w0) = Inr (F, rSim, r_real)))"
proof (intro conjI impI)
  assume a: "fst (ebisuzaki R x0 y0 level nsim seed w0) = Inr (F, rSim, r_real)"
  from a obtain cols where ns: "0 < nsim" and len: "length cols = nat nsim"
      and rs: "rSim = correlations cols"
      and F: "F = fdiv (Fin (of_int (count_larger rSim r_real))) (Fin (of_int nsim))"
    by (rule ebisuzaki_InrD)
  from rs len have l: "length rSim = nat nsim" by simp
  let ?c = "card {i. i < length rSim \<and> fgt (fabs (rSim ! i)) (fabs r_real)}"
  have c: "count_larger rSim r_real = int ?c" by (rule count_larger_card)
  have "int ?c \<le> int (length rSim)" using count_larger_bounds(2) [of rSim r_real] c by simp
  then have le: "real ?c \<le> real_of_int nsim" using l ns by simp
  show "0 < nsim" by fact
  show "length rSim = nat nsim" by fact
  show "F = Fin (real ?c / real_of_int nsim)" using F ns by (simp add: c)
  show "0 \<le> real ?c / real_of_int nsim" using ns by simp
  show "real ?c / real_of_int nsim \<le> 1" using ns le by simp
next
  assume a: "length x0 = length y0 \<and> supported (length x0) \<and> 0 < nsim \<and> nsim < 2 ^ 53
      \<and> 1 / 2 ^ 50 \<le> level \<and> level \<le> 1"
  then have "0 < nsim" "nsim < 2 ^ 53" "1 / 2 ^ 50 \<le> level" "level \<le> 1" by auto
  then have "0 \<le> cv_index nsim level" "cv_index nsim level < nsim"
    by (rule cv_index_range)+
  moreover from a have "length x0 = length y0" "supported (length x0)" "0 < nsim" by blast+
  ultimately have "\<exists>res. fst (ebisuzaki R x0 y0 level nsim seed w0) = Inr res"
    by (intro ebisuzaki_returns) simp_all
  then show "\<exists>F rSim r_real. fst (ebisuzaki R x0 y0 level nsim seed w0) = Inr (F, rSim, r_real)"
    by auto
qed

text \<open>
  C4 as stated fails: the series \<open>[1, 2]\<close> and \<open>[2, 1]\<close> have one length and are not
  constant, \<open>nsim = 1\<close> is positive and the level \<open>2 ^ - 60\<close> lies in the open unit
  interval, and the call returns no p-value: \<open>1 - level\<close> rounds to 1, the index is 1
  and the lookup in the array of one element raises IndexError.
\<close>

theorem ebisuzaki_p_value_missing:
  "length [1, 2 :: real] = length [2, 1 :: real] \<and> (0::int) < 1 \<and>
   (0::real) < 1 / 2 ^ 60 \<and> (1 / 2 ^ 60 :: real) < 1 \<and>
   \<not> is_constant [1, 2] \<and> \<not> is_constant [2, 1] \<and>
   fst (ebisuzaki toy [1, 2] [2, 1] (1 / 2 ^ 60) 1 None world0)
     = Inl (IndexError ''index out of bounds'')"
  unfolding ebisuzaki_example_index_error [OF cv_index_tiny]
  by (simp add: is_constant_def)

section \<open>The generator state\<close>

text \<open>
  C5. With an integer seed, the outcome of a call (the tuple \<open>(F, rSim, r_real)\<close>, or the
  error) and the generator state it leaves do not depend on the world the call starts in:
  two calls with the same arguments give the same \<open>r_real\<close>, the same \<open>rSim\<close> and the
  same \<open>F\<close>, whatever the generator state, the entropy and the output were before.
\<close>

theorem ebisuzaki_seed_deterministic:
  "fst (ebisuzaki R x0 y0 level nsim (Some s) w1) = fst (ebisuzaki R x0 y0 level nsim (Some s) w2)
   \<and> rng (snd (ebisuzaki R x0 y0 level nsim (Some s) w1))
       = rng (snd (ebisuzaki R x0 y0 level nsim (Some s) w2))"
  by (rule ebisuzaki_fst_rng) (simp add: np_random_seed_def)

text \<open>
  C10. Every call overwrites the global generator state first: the state the call finds
  has no influence on what the call does. A call with inputs of different lengths raises
  the length error in the world that the seeding left, whose generator state is the one
  of the seed, or the one taken from the entropy when the seed is \<open>None\<close>.
\<close>

theorem ebisuzaki_reseeds_first:
  "ebisuzaki R x0 y0 level nsim seed (w0\<lparr>rng := g0\<rparr>) = ebisuzaki R x0 y0 level nsim seed w0
   \<and> (length x0 \<noteq> length y0 \<longrightarrow>
        ebisuzaki R x0 y0 level nsim seed w0
          = (Inl (ValueError ''Size of x and y must be the same''), np_random_seed R seed w0)
        \<and> rng (np_random_seed R seed w0)
            = (case seed of Some s \<Rightarrow> rng_seed R s | None \<Rightarrow> fst (rng_fresh R (entropy w0))))"
proof -
  have "np_random_seed R seed (w0\<lparr>rng := g0\<rparr>) = np_random_seed R seed w0"
    by (simp add: np_random_seed_def split: option.splits prod.splits)
  then have "ebisuzaki R x0 y0 level nsim seed (w0\<lparr>rng := g0\<rparr>)
      = ebisuzaki R x0 y0 level nsim seed w0"
    by (simp add: ebisuzaki_def)
  moreover have "rng (np_random_seed R seed w0)
            = (case seed of Some s \<Rightarrow> rng_seed R s | None \<Rightarrow> fst (rng_fresh R (entropy w0)))"
    by (simp add: np_random_seed_def split: option.splits prod.splits)
  ultimately show ?thesis by (simp add: ebisuzaki_mismatch)
qed

theorem ebisuzaki_reseeds_first_witness:
  "length [1, 2 :: real] \<noteq> length [1, 2, 3 :: real] \<and> rng world0 = 7 \<and>
   ebisuzaki toy [1, 2] [1, 2, 3] (1 / 20) 1000 (Some 42) world0
     = (Inl (ValueError ''Size of x and y must be the same''),
        \<lparr>rng = 42, entropy = 100, stdout = []\<rparr>)"
  using ebisuzaki_reseeds_first [where R = toy and ?x0.0 = "[1, 2]" and ?y0.0 = "[1, 2, 3]"
      and level = "1 / 20" and nsim = 1000 and seed = "Some 42" and ?w0.0 = world0 and ?g0.0 = 7]
  by (simp add: np_random_seed_def world0_def)

section \<open>Odd lengths\<close>

lemma surrogates_odd:
  assumes "odd n" "5 \<le> n" "length modx = n" "0 < k"
  shows "fst (surrogates R n modx mody k g)
     = Inl (ValueError ''operands could not be broadcast together'')"
proof -
  from assms(4) obtain k' where k: "k = Suc k'" by (cases k) auto
  show ?thesis
    using surrogate_pair_odd [OF assms(1-3), of R mody g]
    by (cases "surrogate_pair R n modx mody g") (simp add: k)
qed

lemma ebisuzaki_odd:
  assumes "length x0 = length y0" "odd (length x0)" "5 \<le> length x0" "0 < nsim"
  shows "fst (ebisuzaki R x0 y0 level nsim seed w0)
     = Inl (ValueError ''operands could not be broadcast together'')"
proof -
  have ne: "x0 \<noteq> []" using assms(3) by auto
  obtain out g where s: "surrogates R (length x0) (magnitudes x0) (magnitudes y0) (nat nsim)
           (rng (np_random_seed R seed w0)) = (out, g)"
    by (cases "surrogates R (length x0) (magnitudes x0) (magnitudes y0) (nat nsim)
           (rng (np_random_seed R seed w0))")
  have "out = Inl (ValueError ''operands could not be broadcast together'')"
    using surrogates_odd [OF assms(2,3) length_magnitudes [OF ne], of "nat nsim" R
        "magnitudes y0" "rng (np_random_seed R seed w0)"] assms(4) s
    by auto
  with ebisuzaki_eq [OF assms(1) ne _ s, of level] assms(4) show ?thesis by simp
qed

text \<open>
  C1 at the length 5. The odd branch puts \<open>n2 - 1 = 1\<close> free phase between the leading 0
  and the mirrored part, which gives an array of 3 phases for 5 bins, and the product with
  the 5 magnitudes raises.
\<close>

theorem ebisuzaki_odd_length_fails:
  "phases_full 5 [pi / 2] = [0, pi / 2, - (pi / 2)] \<and>
   fst (ebisuzaki toy [1, 2, 3, 4, 5] [2, 1, 4, 3, 6] (1 / 20) 1000 None world0)
     = Inl (ValueError ''operands could not be broadcast together'')"
  by (simp add: phases_full_def ebisuzaki_odd)


section \<open>Constant series\<close>

lemma constant_replicate: "is_constant xs \<Longrightarrow> xs \<noteq> [] \<Longrightarrow> xs = replicate (length xs) (hd xs)"
  unfolding is_constant_def
  by (metis hd_in_set replicate_eqI)

lemma rmean_replicate: "0 < n \<Longrightarrow> rmean (replicate n c) = c"
  by (simp add: rmean_def sum_list_replicate)

lemma rstd_constant:
  assumes "is_constant xs" "xs \<noteq> []"
  shows "rstd xs = 0"
proof -
  from constant_replicate [OF assms] obtain n c where xs: "xs = replicate n c" by blast
  with assms(2) have n: "0 < n" by auto
  show ?thesis
    unfolding xs rstd_def by (simp add: rmean_replicate n)
qed

lemma zscore_constant:
  "is_constant xs \<Longrightarrow> xs \<noteq> [] \<Longrightarrow> zscore (map Fin xs) = replicate (length xs) NaN"
  by (simp add: zscore_Fin rstd_constant)

lemma NaN_in_replicate: "0 < n \<Longrightarrow> NaN \<in> set (replicate n NaN)"
  by simp

lemma magnitudes_constant:
  assumes "is_constant xs" "xs \<noteq> []"
  shows "magnitudes xs = replicate (length xs) NaN"
proof -
  have "NaN \<in> set (replicate (length xs) NaN)" using assms(2) by simp
  then show ?thesis
    by (simp add: magnitudes_def zscore_constant [OF assms] np_fft_NaN)
qed

lemma corrcoef_NaN_left:
  assumes "NaN \<in> set x"
  shows "corrcoef x y = NaN"
proof -
  let ?dx = "map (\<lambda>a. fsub a (np_mean x)) x"
  have "?dx = replicate (length x) NaN"
    by (simp add: np_mean_NaN [OF assms] map_replicate_const)
  moreover have "0 < length x" using assms by (cases x) auto
  ultimately have "NaN \<in> set (map2 fmul ?dx ?dx)"
    by (simp add: zip_replicate)
  then have "np_sum (map2 fmul ?dx ?dx) = NaN" by (rule np_sum_NaN)
  then show ?thesis by (simp add: corrcoef_def Let_def)
qed

lemma corrcoef_NaN_right:
  assumes "NaN \<in> set y"
  shows "corrcoef x y = NaN"
proof -
  let ?dy = "map (\<lambda>a. fsub a (np_mean y)) y"
  have "?dy = replicate (length y) NaN"
    by (simp add: np_mean_NaN [OF assms] map_replicate_const)
  moreover have "0 < length y" using assms by (cases y) auto
  ultimately have "NaN \<in> set (map2 fmul ?dy ?dy)"
    by (simp add: zip_replicate)
  then have "np_sum (map2 fmul ?dy ?dy) = NaN" by (rule np_sum_NaN)
  then show ?thesis by (simp add: corrcoef_def Let_def)
qed

lemma count_larger_NaN: "count_larger (replicate k NaN) r = 0"
  by (simp add: count_larger_card)

lemma np_sort_NaN: "np_sort (replicate k NaN) = replicate k NaN"
proof -
  have "finite_part (replicate k NaN) = []" by (induction k) (simp_all add: finite_part_def)
  then show ?thesis by (simp add: np_sort_def)
qed

lemma correlations_NaN:
  assumes "\<forall>c \<in> set cols. NaN \<in> set (zscore (fst c)) \<or> NaN \<in> set (zscore (snd c))"
  shows "correlations cols = replicate (length cols) NaN"
  using assms
  by (intro replicate_eqI)
     (auto simp: correlations_def corrcoef_NaN_left corrcoef_NaN_right)

lemma ebisuzaki_constant:
  assumes "length x0 = length y0" "supported (length x0)" "0 < nsim"
    and "- nsim \<le> cv_index nsim level" "cv_index nsim level < nsim"
    and "is_constant x0 \<or> is_constant y0"
  shows "fst (ebisuzaki R x0 y0 level nsim seed w0) = Inr (Fin 0, replicate (nat nsim) NaN, NaN)"
proof -
  let ?n = "length x0"
  have n: "0 < ?n" "x0 \<noteq> []" "y0 \<noteq> []" using supported_pos [OF assms(2)] assms(1) by auto
  from ebisuzaki_returns [OF assms(1-5), of R seed w0]
  obtain F rSim r_real where r: "fst (ebisuzaki R x0 y0 level nsim seed w0) = Inr (F, rSim, r_real)"
    by auto
  from r obtain cols where len: "length cols = nat nsim"
    and cols: "\<forall>c \<in> set cols. \<exists>px py. length px = ?n div 2 - 1 \<and> length py = ?n div 2 - 1 \<and>
        c = (surrogate ?n (magnitudes x0) px, surrogate ?n (magnitudes y0) py)"
    and rs: "rSim = correlations cols"
    and rr: "r_real = corrcoef (zscore (map Fin x0)) (zscore (map Fin y0))"
    and F: "F = fdiv (Fin (of_int (count_larger rSim r_real))) (Fin (of_int nsim))"
    by (rule ebisuzaki_InrD)
  have nan_col: "NaN \<in> set (zscore (surrogate ?n (magnitudes z) ps))"
    if "is_constant z" "length z = ?n" "length ps = ?n div 2 - 1" for z ps
  proof -
    have z: "z \<noteq> []" using that(2) n(1) by auto
    have "surrogate ?n (magnitudes z) ps = replicate ?n NaN"
      using surrogate_nan [OF assms(2) _ that(3), of "magnitudes z"]
      by (simp add: magnitudes_constant [OF that(1) z] that(2))
    then show ?thesis using n(1) by (simp add: zscore_NaN)
  qed
  have "\<forall>c \<in> set cols. NaN \<in> set (zscore (fst c)) \<or> NaN \<in> set (zscore (snd c))"
  proof
    fix c assume "c \<in> set cols"
    with cols obtain px py where p: "length px = ?n div 2 - 1" "length py = ?n div 2 - 1"
        "c = (surrogate ?n (magnitudes x0) px, surrogate ?n (magnitudes y0) py)"
      by blast
    from assms(6) show "NaN \<in> set (zscore (fst c)) \<or> NaN \<in> set (zscore (snd c))"
      using nan_col [of x0 px] nan_col [of y0 py] p assms(1) by auto
  qed
  then have rs': "rSim = replicate (nat nsim) NaN"
    using correlations_NaN [of cols] rs len by simp
  have "NaN \<in> set (zscore (map Fin x0)) \<or> NaN \<in> set (zscore (map Fin y0))"
    using assms(6) n by (auto simp: zscore_constant)
  then have rr': "r_real = NaN"
    using rr corrcoef_NaN_left corrcoef_NaN_right by auto
  have "F = Fin 0" using F assms(3) by (simp add: rs' count_larger_NaN)
  with r rs' rr' show ?thesis by simp
qed

text \<open>
  C9, as the code has it. For a series that is constant everywhere (\<open>x\<close> or \<open>y\<close>), on a
  length the loop supports and with a positive \<open>nsim\<close> below \<open>2 ^ 53\<close>, the division by
  the zero standard deviation raises nothing: the standardisation of the constant series
  gives NaNs, and the NaNs go through the transforms and the correlations. When the index
  \<open>int(nsim * (1 - level))\<close> is one of the array, as it is for every level from
  \<open>2 ^ - 50\<close> to 1, the call returns normally: \<open>r_real\<close> is NaN, every element of
  \<open>rSim\<close> is NaN and \<open>F\<close> is 0.
\<close>

theorem ebisuzaki_constant_series:
  assumes "length x0 = length y0" "supported (length x0)" "0 < nsim" "nsim < 2 ^ 53"
    and "is_constant x0 \<or> is_constant y0"
    and "(- nsim \<le> cv_index nsim level \<and> cv_index nsim level < nsim)
         \<or> (1 / 2 ^ 50 \<le> level \<and> level \<le> 1)"
  shows "fst (ebisuzaki R x0 y0 level nsim seed w0) = Inr (Fin 0, replicate (nat nsim) NaN, NaN)"
proof -
  have "- nsim \<le> cv_index nsim level \<and> cv_index nsim level < nsim"
    using assms(6) cv_index_range [OF assms(3,4), of level] assms(3) by auto
  then show ?thesis
    using ebisuzaki_constant [OF assms(1-3) _ _ assms(5), of level R seed w0] by simp
qed

theorem ebisuzaki_constant_series_witness:
  "length [3, 3 :: real] = length [1, 2 :: real] \<and> supported (length [3, 3 :: real]) \<and>
   (0::int) < 2 \<and> (2::int) < 2 ^ 53 \<and> is_constant [3, 3] \<and>
   (1 / 2 ^ 50 :: real) \<le> 1 / 20 \<and> (1 / 20 :: real) \<le> 1 \<and>
   fst (ebisuzaki toy [3, 3] [1, 2] (1 / 20) 2 (Some 5) world0) = Inr (Fin 0, [NaN, NaN], NaN)"
  using ebisuzaki_constant_series [where R = toy and ?x0.0 = "[3, 3]" and ?y0.0 = "[1, 2]"
      and level = "1 / 20" and nsim = 2 and seed = "Some 5" and ?w0.0 = world0]
  by (simp add: supported_def is_constant_def numeral_2_eq_2)

text \<open>
  C9 as stated fails: the series \<open>[1, 1]\<close> is constant, and the call returns a result.
\<close>

theorem ebisuzaki_constant_returns:
  "is_constant [1, 1] \<and>
   fst (ebisuzaki toy [1, 1] [1, 2] (1 / 20) 1 None world0) = Inr (Fin 0, [NaN], NaN)"
  using ebisuzaki_constant [where R = toy and ?x0.0 = "[1, 1]" and ?y0.0 = "[1, 2]"
      and level = "1 / 20" and nsim = 1 and seed = None and ?w0.0 = world0]
  by (simp add: supported_def is_constant_def cv_index_example)


section \<open>The spectrum of a surrogate\<close>

lemma phases_full_even_nth:
  assumes "even n" "length ps = n div 2 - 1" "2 \<le> n" "k < n"
  shows "phases_full n ps ! k =
     (if k = 0 \<or> k = n div 2 then 0
      else if k < n div 2 then ps ! (k - 1)
      else - (ps ! (n - k - 1)))"
proof -
  define h where "h = length ps"
  have n: "n = 2 * h + 2" using assms(1-3) even_half_len [of n] by (simp add: h_def)
  have pf: "phases_full n ps = (0 # ps) @ (0 # map uminus (rev ps))"
    using assms(1) by (simp add: phases_full_def)
  have hh: "n div 2 = h + 1" using n by simp
  consider "k = 0" | "0 < k" "k \<le> h" | "k = h + 1" | "h + 1 < k" by linarith
  then show ?thesis
  proof cases
    case 1
    then show ?thesis by (simp add: pf)
  next
    case 2
    then have "k < length (0 # ps)" by (simp add: h_def)
    then have "((0 # ps) @ (0 # map uminus (rev ps))) ! k = (0 # ps) ! k"
      by (rule nth_append_left)
    also have "\<dots> = ps ! (k - 1)" using 2 by (simp add: nth_Cons')
    finally show ?thesis using 2 by (simp add: pf hh)
  next
    case 3
    then have "((0 # ps) @ (0 # map uminus (rev ps))) ! k = (0 # map uminus (rev ps)) ! 0"
      using nth_append_right [of "0 # ps" k "0 # map uminus (rev ps)"] by (simp add: h_def)
    then show ?thesis using 3 by (simp add: pf hh)
  next
    case 4
    then have kh: "k - (h + 1) = Suc (k - h - 2)" by simp
    have lt: "k - h - 2 < h" using 4 assms(4) n by simp
    have "((0 # ps) @ (0 # map uminus (rev ps))) ! k = (0 # map uminus (rev ps)) ! (k - (h + 1))"
      using 4 nth_append_right [of "0 # ps" k "0 # map uminus (rev ps)"] by (simp add: h_def)
    also have "\<dots> = map uminus (rev ps) ! (k - h - 2)" by (simp only: kh nth_Cons_Suc)
    also have "\<dots> = - (ps ! (h - Suc (k - h - 2)))"
      using lt by (simp add: rev_nth h_def)
    also have "h - Suc (k - h - 2) = n - k - 1" using 4 assms(4) n by simp
    finally show ?thesis using 4 by (simp add: pf hh)
  qed
qed

lemma phase_at_mirror:
  assumes "supported n" "length ps = n div 2 - 1" "k < n"
  shows "phase_at n ps (mirror n k) = - phase_at n ps k"
proof (cases "even n")
  case False
  then show ?thesis by (simp add: phase_at_def)
next
  case True
  with assms(1) have n2: "2 \<le> n" by (auto simp: supported_def)
  have m: "mirror n k < n" using mirror_less [of n k] n2 by simp
  note nth = phases_full_even_nth [OF True assms(2) n2]
  show ?thesis
  proof (cases "k = 0")
    case True
    then show ?thesis using nth [of 0] n2 \<open>even n\<close> by (simp add: phase_at_def)
  next
    case False
    then have mk: "mirror n k = n - k" using assms(3) by (simp add: mirror_pos)
    have half: "2 * (n div 2) = n" using True by simp
    consider "k < n div 2" | "k = n div 2" | "n div 2 < k" by linarith
    then show ?thesis
    proof cases
      case 1
      with False assms(3) half have "n div 2 < n - k" "n - (n - k) - 1 = k - 1" by linarith+
      with 1 False m show ?thesis
        using nth [of k] nth [of "n - k"] assms(3) \<open>even n\<close>
        by (simp add: phase_at_def mk)
    next
      case 2
      with half have "n - k = k" by linarith
      then have mm: "mirror n k = k" using mk by simp
      have "phases_full n ps ! k = 0" using nth [of k] 2 assms(3) by simp
      then show ?thesis using \<open>even n\<close> by (simp add: phase_at_def mm)
    next
      case 3
      with False assms(3) half have "n - k < n div 2" "n - k \<noteq> 0" by linarith+
      with 3 False m show ?thesis
        using nth [of k] nth [of "n - k"] assms(3) \<open>even n\<close>
        by (simp add: phase_at_def mk)
    qed
  qed
qed

text \<open>
  The even branch: the phase array has one phase for each bin, 0 at bin 0 and at the
  Nyquist bin, and the negated phase at the mirrored bin.
\<close>

lemma phases_full_even:
  assumes "even n" "2 \<le> n" "length ps = n div 2 - 1"
  shows "length (phases_full n ps) = n"
    and "phases_full n ps ! 0 = 0"
    and "phases_full n ps ! (n div 2) = 0"
    and "0 < k \<Longrightarrow> k < n \<Longrightarrow> phases_full n ps ! (n - k) = - phases_full n ps ! k"
proof -
  have sup: "supported n" using assms(1,2) by (simp add: supported_def)
  show "length (phases_full n ps) = n"
    using length_phases_full_supported [OF sup assms(3)] assms(1) by simp
  show "phases_full n ps ! 0 = 0"
    using phases_full_even_nth [OF assms(1,3,2), of 0] assms(2) by simp
  show "phases_full n ps ! (n div 2) = 0"
    using phases_full_even_nth [OF assms(1,3,2), of "n div 2"] assms(2) by simp
  show "phases_full n ps ! (n - k) = - phases_full n ps ! k" if "0 < k" "k < n"
    using phase_at_mirror [OF sup assms(3) that(2)] that assms(1)
    by (simp add: phase_at_def mirror_pos)
qed

lemma hermitian_spectrum:
  assumes "supported n" "length ps = n div 2 - 1" "length m = n"
    and sym: "\<forall>k<n. m ! mirror n k = m ! k"
  shows "hermitian (spectrum n m ps)"
  unfolding hermitian_def
proof (intro allI impI)
  fix k assume "k < length (spectrum n m ps)"
  then have k: "k < n" by simp
  then have mk: "mirror n k < n" using mirror_less [of n k] by simp
  have "spectrum n m ps ! mirror n k
      = complex_of_real (m ! k) * cis (- phase_at n ps k)"
    using mk sym k by (simp add: spectrum_def phase_at_mirror [OF assms(1,2) k])
  also have "\<dots> = cnj (spectrum n m ps ! k)"
    using k by (simp add: spectrum_def cis_cnj)
  finally show "spectrum n m ps ! mirror (length (spectrum n m ps)) k = cnj (spectrum n m ps ! k)"
    by simp
qed

lemma cmod_dft_mirror:
  assumes "k < length rs"
  shows "cmod (dft (map complex_of_real rs) ! mirror (length rs) k)
           = cmod (dft (map complex_of_real rs) ! k)"
  using hermitian_dft_real [of rs] assms by (simp add: hermitian_def)

lemma cmod_spectrum:
  assumes "k < n" "0 \<le> m ! k"
  shows "cmod (spectrum n m ps ! k) = m ! k"
  using assms by (simp add: spectrum_def norm_mult)

text \<open>
  The surrogate that the loop body builds from the magnitudes of a real signal: it is a
  list of finite numbers, and its transform has the magnitudes it was built from.
\<close>

lemma surrogate_of_real_signal:
  assumes "supported n" "length rs = n" "length ps = n div 2 - 1"
  defines "m \<equiv> map cmod (dft (map complex_of_real rs))"
  defines "S \<equiv> map Re (idft (spectrum n m ps))"
  shows "surrogate n (map Fin m) ps = map Fin S"
    and "dft (map complex_of_real S) = spectrum n m ps"
    and "map cmod (dft (map complex_of_real S)) = m"
    and "length S = n"
proof -
  have lm: "length m = n" using assms(2) by (simp add: m_def)
  have sym: "\<forall>k<n. m ! mirror n k = m ! k"
    using cmod_dft_mirror [of _ rs] assms(2) mirror_less [of n] by (auto simp: m_def)
  have h: "hermitian (spectrum n m ps)"
    by (rule hermitian_spectrum [OF assms(1) assms(3) lm sym])
  show "surrogate n (map Fin m) ps = map Fin S"
    by (simp add: surrogate_finite [OF assms(1) lm assms(3)] S_def)
  show d: "dft (map complex_of_real S) = spectrum n m ps"
    unfolding S_def by (rule dft_surrogate [OF h])
  show "map cmod (dft (map complex_of_real S)) = m"
    unfolding d using lm
    by (intro nth_equalityI) (simp_all add: cmod_spectrum m_def assms(2))
  show "length S = n" by (simp add: S_def)
qed


section \<open>Standardised series\<close>

lemma sum_list_map_nth: "sum_list (map f xs) = (\<Sum>i<length xs. f (xs ! i))"
  using sum_list_sum_nth [of "map f xs"] by (simp add: atLeast0LessThan)

lemma rmean_sum: "rmean xs = (\<Sum>i<length xs. xs ! i) / real (length xs)"
  using sum_list_map_nth [of "\<lambda>a. a" xs] by (simp add: rmean_def)

lemma rstd_sum:
  "(rstd xs)\<^sup>2 = (\<Sum>i<length xs. (xs ! i - rmean xs)\<^sup>2) / real (length xs)"
proof -
  have nn: "0 \<le> (\<Sum>i<length xs. (xs ! i - rmean xs)\<^sup>2) / real (length xs)"
    by (intro divide_nonneg_nonneg sum_nonneg) auto
  have "rmean (map (\<lambda>a. (a - rmean xs) * (a - rmean xs)) xs)
      = (\<Sum>i<length xs. (xs ! i - rmean xs)\<^sup>2) / real (length xs)"
    using sum_list_map_nth [of "\<lambda>a. (a - rmean xs) * (a - rmean xs)" xs]
    by (simp add: rmean_def [of "map _ _"] power2_eq_square)
  then have "rstd xs = sqrt ((\<Sum>i<length xs. (xs ! i - rmean xs)\<^sup>2) / real (length xs))"
    by (simp only: rstd_def)
  then show ?thesis using nn by (simp only: real_sqrt_pow2)
qed

lemma rstd_nonneg: "0 \<le> rstd xs"
  by (simp add: rstd_def rmean_squares_nonneg)

lemma rstd_zero_constant:
  assumes "rstd xs = 0"
  shows "is_constant xs"
proof (cases "xs = []")
  case True
  then show ?thesis by (simp add: is_constant_def)
next
  case False
  then have n: "0 < real (length xs)" by simp
  have "(\<Sum>i<length xs. (xs ! i - rmean xs)\<^sup>2) / real (length xs) = 0"
    using rstd_sum [of xs] assms by simp
  with n have "(\<Sum>i<length xs. (xs ! i - rmean xs)\<^sup>2) = 0" by simp
  then have "\<forall>i<length xs. (xs ! i - rmean xs)\<^sup>2 = 0"
    by (subst (asm) sum_nonneg_eq_0_iff) auto
  then have "\<forall>i<length xs. xs ! i = rmean xs" by simp
  then have "\<forall>a \<in> set xs. a = rmean xs" by (metis in_set_conv_nth)
  then show ?thesis unfolding is_constant_def by metis
qed

lemma standard_rmean: "standard xs \<Longrightarrow> rmean xs = 0"
  by (simp add: standard_def rmean_sum)

lemma standard_rstd: "standard xs \<Longrightarrow> xs \<noteq> [] \<Longrightarrow> rstd xs = 1"
proof -
  assume s: "standard xs" and ne: "xs \<noteq> []"
  have "(rstd xs)\<^sup>2 = 1"
    using s ne by (simp add: rstd_sum standard_rmean) (simp add: standard_def)
  with rstd_nonneg [of xs] show ?thesis
    by (simp add: power2_eq_1_iff)
qed

lemma zscore_standard: "standard xs \<Longrightarrow> zscore (map Fin xs) = map Fin xs"
  by (cases "xs = []") (simp_all add: zscore_Fin standard_rstd standard_rmean)

lemma standard_zscore:
  assumes "rstd x0 \<noteq> 0" "x0 \<noteq> []"
  shows "standard (map (\<lambda>a. (a - rmean x0) / rstd x0) x0)"
proof -
  define n where "n = length x0"
  have n: "0 < real n" using assms(2) by (simp add: n_def)
  have "(\<Sum>i<n. (x0 ! i - rmean x0) / rstd x0) = ((\<Sum>i<n. x0 ! i) - real n * rmean x0) / rstd x0"
    by (simp add: sum_divide_distrib [symmetric] sum_subtractf)
  also have "\<dots> = 0" using n by (simp add: rmean_sum n_def)
  finally have a: "(\<Sum>i<n. (x0 ! i - rmean x0) / rstd x0) = 0" .
  have "(\<Sum>i<n. ((x0 ! i - rmean x0) / rstd x0)\<^sup>2)
      = (\<Sum>i<n. (x0 ! i - rmean x0)\<^sup>2) / (rstd x0)\<^sup>2"
    by (simp add: power_divide sum_divide_distrib)
  also have "(\<Sum>i<n. (x0 ! i - rmean x0)\<^sup>2) = real n * (rstd x0)\<^sup>2"
    using n by (simp add: rstd_sum n_def)
  finally have b: "(\<Sum>i<n. ((x0 ! i - rmean x0) / rstd x0)\<^sup>2) = real n"
    using assms(1) by simp
  from a b show ?thesis by (simp add: standard_def n_def)
qed

lemma zscore_nonconstant:
  assumes "\<not> is_constant x0"
  shows "zscore (map Fin x0) = map Fin (map (\<lambda>a. (a - rmean x0) / rstd x0) x0)"
    and "standard (map (\<lambda>a. (a - rmean x0) / rstd x0) x0)"
proof -
  have ne: "x0 \<noteq> []" using assms by (auto simp: is_constant_def)
  have sd: "rstd x0 \<noteq> 0" using assms rstd_zero_constant by blast
  show "zscore (map Fin x0) = map Fin (map (\<lambda>a. (a - rmean x0) / rstd x0) x0)"
    using ne sd by (simp add: zscore_Fin)
  show "standard (map (\<lambda>a. (a - rmean x0) / rstd x0) x0)"
    by (rule standard_zscore [OF sd ne])
qed


lemma dft_zero: "0 < length ys \<Longrightarrow> dft ys ! 0 = (\<Sum>j<length ys. ys ! j)"
  by (simp add: dft_nth)

lemma surrogate_standard:
  assumes "supported n" "length xs = n" "length ps = n div 2 - 1" "standard xs"
  defines "m \<equiv> map cmod (dft (map complex_of_real xs))"
  defines "S \<equiv> map Re (idft (spectrum n m ps))"
  shows "standard S"
proof -
  have n: "0 < n" using supported_pos [OF assms(1)] by simp
  have facts: "dft (map complex_of_real S) = spectrum n m ps"
      "map cmod (dft (map complex_of_real S)) = m" "length S = n"
    using surrogate_of_real_signal(2-4) [OF assms(1-3)] by (simp_all add: m_def S_def)
  have sx: "(\<Sum>j<n. xs ! j) = 0" using assms(4) assms(2) by (simp add: standard_def)
  have "dft (map complex_of_real xs) ! 0 = complex_of_real (\<Sum>j<n. xs ! j)"
    using n assms(2) by (simp add: dft_zero)
  then have "dft (map complex_of_real xs) ! 0 = 0" by (simp only: sx of_real_0)
  then have m0: "m ! 0 = 0"
    using n assms(2) by (simp add: m_def)
  have "complex_of_real (\<Sum>j<n. S ! j) = dft (map complex_of_real S) ! 0"
    using n facts(3) by (simp add: dft_zero)
  also have "\<dots> = 0" using n by (simp add: facts(1) spectrum_def m0)
  finally have a: "(\<Sum>j<n. S ! j) = 0" by (simp only: of_real_eq_0_iff)
  have "real n * (\<Sum>j<n. (S ! j)\<^sup>2)
      = (\<Sum>k<n. (cmod (dft (map complex_of_real S) ! k))\<^sup>2)"
    using parseval [of "map complex_of_real S"] facts(3) by simp
  also have "\<dots> = (\<Sum>k<n. (m ! k)\<^sup>2)"
  proof (intro sum.cong refl)
    fix k assume "k \<in> {..<n}"
    then have "map cmod (dft (map complex_of_real S)) ! k = cmod (dft (map complex_of_real S) ! k)"
      using facts(3) by simp
    then show "(cmod (dft (map complex_of_real S) ! k))\<^sup>2 = (m ! k)\<^sup>2"
      by (simp only: facts(2))
  qed
  also have "\<dots> = (\<Sum>k<n. (cmod (dft (map complex_of_real xs) ! k))\<^sup>2)"
    using assms(2) by (intro sum.cong refl) (simp add: m_def)
  also have "\<dots> = real n * (\<Sum>j<n. (xs ! j)\<^sup>2)"
    using parseval [of "map complex_of_real xs"] assms(2) by simp
  also have "\<dots> = real n * real n"
    using assms(4) assms(2) by (simp add: standard_def)
  finally have b: "(\<Sum>j<n. (S ! j)\<^sup>2) = real n" using n by simp
  from a b facts(3) show ?thesis by (simp add: standard_def)
qed


section \<open>The correlation of two standardised series\<close>

lemma map2_fmul_Fin: "map2 fmul (map Fin U) (map Fin V) = map Fin (map2 (*) U V)"
  by (induction U arbitrary: V) (auto simp: zip_Cons1 split: list.splits)

lemma sum_list_squares:
  fixes A :: "real list"
  shows "sum_list (map2 (*) A A) = (\<Sum>i<length A. (A ! i)\<^sup>2)"
proof -
  have "map2 (*) A A = map (\<lambda>a. a * a) A" by (induction A) simp_all
  then have "sum_list (map2 (*) A A) = (\<Sum>i<length A. A ! i * A ! i)"
    by (simp only: sum_list_map_nth)
  also have "\<dots> = (\<Sum>i<length A. (A ! i)\<^sup>2)"
    by (intro sum.cong refl) (simp add: power2_eq_square)
  finally show ?thesis .
qed

text \<open>
  The divisions by zero of the standardisation and of the correlation are divisions of 0.
\<close>

lemma zero_std_zero_deviation:
  assumes "np_std (map Fin rs) = Fin 0" "a \<in> set rs"
  shows "fsub (Fin a) (np_mean (map Fin rs)) = Fin 0"
proof -
  have ne: "rs \<noteq> []" using assms(2) by auto
  then have "rstd rs = 0" using assms(1) by (simp add: np_std_Fin)
  then have c: "is_constant rs" by (rule rstd_zero_constant)
  from constant_replicate [OF c ne] have "rs = replicate (length rs) (hd rs)" .
  moreover from c assms(2) ne have "hd rs = a" by (auto simp: is_constant_def)
  ultimately have "rs = replicate (length rs) a" by simp
  then have "rmean rs = a" using rmean_replicate [of "length rs" a] ne by simp
  then show ?thesis using ne by (simp add: np_mean_Fin)
qed

lemma zero_variance_zero_covariance:
  fixes dA dB :: "real list"
  assumes "sum_list (map2 (*) dA dA) = 0"
  shows "sum_list (map2 (*) dA dB) = 0"
proof -
  have "(\<Sum>i<length dA. (dA ! i)\<^sup>2) = 0" using assms by (simp add: sum_list_squares)
  then have "\<forall>i<length dA. (dA ! i)\<^sup>2 = 0"
    by (subst (asm) sum_nonneg_eq_0_iff) auto
  then have z: "\<forall>a \<in> set dA. a = 0" by (auto simp: in_set_conv_nth)
  have "map2 (*) dA dB = replicate (length (zip dA dB)) 0"
    using z by (intro replicate_eqI) (auto dest: set_zip_leftD)
  then have "sum_list (map2 (*) dA dB) = sum_list (replicate (length (zip dA dB)) (0::real))"
    by (simp only:)
  then show ?thesis by (simp add: sum_list_replicate)
qed

lemma fclip_range: "\<exists>v. fclip (Fin u) = Fin v \<and> - 1 \<le> v \<and> v \<le> 1"
  by simp

lemma corrcoef_standard:
  assumes "standard A" "standard B" "length A = length B" "2 \<le> length A"
  shows "\<exists>v. corrcoef (map Fin A) (map Fin B) = Fin v \<and> - 1 \<le> v \<and> v \<le> 1"
proof -
  define n where "n = length A"
  have ne: "A \<noteq> []" "B \<noteq> []" using assms(3,4) by auto
  have mA: "np_mean (map Fin A) = Fin 0" using assms(1) ne by (simp add: np_mean_Fin standard_rmean)
  have mB: "np_mean (map Fin B) = Fin 0" using assms(2) ne by (simp add: np_mean_Fin standard_rmean)
  have dA: "map (\<lambda>a. fsub a (Fin 0)) (map Fin A) = map Fin A" by simp
  have dB: "map (\<lambda>a. fsub a (Fin 0)) (map Fin B) = map Fin B" by simp
  have f: "real (n - 1) \<noteq> 0" "0 < real (n - 1)" using assms(4) by (simp_all add: n_def)
  have sA: "sum_list (map2 (*) A A) = real n"
    using assms(1) by (simp add: sum_list_squares standard_def n_def)
  have sB: "sum_list (map2 (*) B B) = real n"
    using assms(2,3) by (simp add: sum_list_squares standard_def n_def)
  have "0 < real n" using assms(4) by (auto simp: n_def)
  then have pos: "0 < real n / real (n - 1)" using f(2) by (rule divide_pos_pos)
  from pos have "0 < sqrt (real n / real (n - 1))" by (simp only: real_sqrt_gt_0_iff)
  then have sq1: "sqrt (real n / real (n - 1)) \<noteq> 0" by linarith
  have sq2: "\<not> real n / real (n - 1) < 0" using pos by (simp only: not_less less_imp_le)
  note sq = sq1 sq2
  have "corrcoef (map Fin A) (map Fin B)
      = fclip (Fin (sum_list (map2 (*) A B) / real (n - 1)
           / sqrt (real n / real (n - 1)) / sqrt (real n / real (n - 1))))"
    unfolding corrcoef_def Let_def mA mB dA dB map2_fmul_Fin np_sum_Fin length_map
      n_def [symmetric] sA sB
    using f(1) sq by simp
  then show ?thesis using fclip_range by simp
qed


section \<open>Surrogates of a series that is not constant\<close>

lemma cabs_CFin: "map cabs (map CFin zs) = map Fin (map cmod zs)"
  by (induction zs) simp_all

lemma magnitudes_nonconstant:
  assumes "\<not> is_constant x0"
  shows "magnitudes x0
     = map Fin (map cmod (dft (map complex_of_real (map (\<lambda>a. (a - rmean x0) / rstd x0) x0))))"
proof -
  have ne: "x0 \<noteq> []" using assms by (auto simp: is_constant_def)
  then show ?thesis
    by (simp add: magnitudes_def zscore_nonconstant(1) [OF assms] np_fft_Fin cabs_CFin
          del: map_map)
qed

lemma surrogate_nonconstant:
  assumes "supported (length x0)" "\<not> is_constant x0" "length ps = length x0 div 2 - 1"
  shows "\<exists>S f. surrogate (length x0) (magnitudes x0) ps = map Fin S \<and> standard S \<and>
           length S = length x0 \<and> np_fft (map Fin S) = Inr f \<and> map cabs f = magnitudes x0"
proof -
  define xs where "xs = map (\<lambda>a. (a - rmean x0) / rstd x0) x0"
  define m where "m = map cmod (dft (map complex_of_real xs))"
  define S where "S = map Re (idft (spectrum (length x0) m ps))"
  have lx: "length xs = length x0" by (simp add: xs_def)
  have st: "standard xs" unfolding xs_def by (rule zscore_nonconstant(2) [OF assms(2)])
  have mg: "magnitudes x0 = map Fin m"
    unfolding m_def xs_def by (rule magnitudes_nonconstant [OF assms(2)])
  note sg = surrogate_of_real_signal [OF assms(1) lx assms(3), folded m_def, folded S_def]
  have ne: "S \<noteq> []" using sg(4) supported_pos [OF assms(1)] by auto
  have "np_fft (map Fin S) = Inr (map CFin (dft (map complex_of_real S)))"
    using ne by (rule np_fft_Fin)
  moreover have "map cabs (map CFin (dft (map complex_of_real S))) = map Fin m"
    using sg(3) by (simp only: cabs_CFin)
  moreover have "standard S"
    unfolding S_def m_def by (rule surrogate_standard [OF assms(1) lx assms(3) st])
  ultimately show ?thesis using sg(1,4) mg by auto
qed

lemma surrogates_InrD:
  assumes "surrogates R n modx mody k g = (Inr cols, g')" "c \<in> set cols"
    and "length modx = n" "length mody = n" "uniform_nan modx" "uniform_nan mody"
  shows "supported n \<and> (\<exists>px py. length px = n div 2 - 1 \<and> length py = n div 2 - 1 \<and>
           c = (surrogate n modx px, surrogate n mody py))"
proof -
  have k: "0 < k" using surrogates_length [OF assms(1)] assms(2) by (cases cols) auto
  have sup: "supported n"
    using surrogates_unsupported [OF _ assms(3) k, of R mody g] assms(1) by auto
  from surrogates_supported [OF sup assms(3-6), of R k g] assms(1,2) show ?thesis
    using sup by auto
qed


text \<open>
  C6, in exact arithmetic. In a call that returns, on series that are not constant, every
  column that the loop writes into \<open>X\<close> has a transform whose magnitudes are \<open>modx\<close>, the
  magnitudes of the transform of the standardised \<open>x\<close>, and the same for \<open>Y\<close> and \<open>y\<close>;
  the standardisation of the columns that follows leaves them as they are, so this holds
  for the standardised surrogates too. The rounding of the floating-point transforms is
  outside the model: the magnitudes are equal, not equal up to a tolerance.
\<close>

theorem surrogate_spectrum_preserved:
  assumes "fst (ebisuzaki R x0 y0 level nsim seed w0) = Inr (F, rSim, r_real)"
    and "\<not> is_constant x0" "\<not> is_constant y0"
  shows "\<exists>cols g. surrogates R (length x0) (magnitudes x0) (magnitudes y0) (nat nsim)
             (rng (np_random_seed R seed w0)) = (Inr cols, g) \<and>
           length cols = nat nsim \<and> rSim = correlations cols \<and>
           (\<forall>c \<in> set cols. \<exists>fx fy.
              np_fft (fst c) = Inr fx \<and> map cabs fx = magnitudes x0 \<and>
              np_fft (snd c) = Inr fy \<and> map cabs fy = magnitudes y0 \<and>
              zscore (fst c) = fst c \<and> zscore (snd c) = snd c)"
proof -
  from assms(1) obtain cols g where len: "length x0 = length y0"
    and sup: "supported (length x0)"
    and s: "surrogates R (length x0) (magnitudes x0) (magnitudes y0) (nat nsim)
           (rng (np_random_seed R seed w0)) = (Inr cols, g)"
    and lc: "length cols = nat nsim"
    and cols: "\<forall>c \<in> set cols. \<exists>px py. length px = length x0 div 2 - 1 \<and>
        length py = length x0 div 2 - 1 \<and>
        c = (surrogate (length x0) (magnitudes x0) px, surrogate (length x0) (magnitudes y0) py)"
    and rs: "rSim = correlations cols"
    by (rule ebisuzaki_InrD)
  have "\<exists>fx fy. np_fft (fst c) = Inr fx \<and> map cabs fx = magnitudes x0 \<and>
              np_fft (snd c) = Inr fy \<and> map cabs fy = magnitudes y0 \<and>
              zscore (fst c) = fst c \<and> zscore (snd c) = snd c" if "c \<in> set cols" for c
  proof -
    from cols that obtain px py where p: "length px = length x0 div 2 - 1"
        "length py = length y0 div 2 - 1"
        "c = (surrogate (length x0) (magnitudes x0) px, surrogate (length y0) (magnitudes y0) py)"
      using len by auto
    from surrogate_nonconstant [OF sup assms(2) p(1)] obtain Sx fx where
      x: "surrogate (length x0) (magnitudes x0) px = map Fin Sx" "standard Sx"
         "np_fft (map Fin Sx) = Inr fx" "map cabs fx = magnitudes x0"
      by blast
    from surrogate_nonconstant [OF sup [unfolded len] assms(3) p(2)] obtain Sy fy where
      y: "surrogate (length y0) (magnitudes y0) py = map Fin Sy" "standard Sy"
         "np_fft (map Fin Sy) = Inr fy" "map cabs fy = magnitudes y0"
      by blast
    show ?thesis
      using x y by (simp add: p(3) zscore_standard)
  qed
  with s lc rs show ?thesis by blast
qed

theorem surrogate_spectrum_preserved_witness:
  "\<not> is_constant [1, 2, 4, 3] \<and> \<not> is_constant [2, 1, 1, 5] \<and>
   (\<exists>F rSim r_real cols g fx fy.
      fst (ebisuzaki toy [1, 2, 4, 3] [2, 1, 1, 5] (1 / 20) 3 (Some 1) world0)
        = Inr (F, rSim, r_real) \<and>
      surrogates toy (length [1, 2, 4, 3 :: real]) (magnitudes [1, 2, 4, 3])
        (magnitudes [2, 1, 1, 5]) (nat 3) (rng (np_random_seed toy (Some 1) world0))
        = (Inr cols, g) \<and>
      length cols = nat 3 \<and>
      np_fft (fst (hd cols)) = Inr fx \<and> map cabs fx = magnitudes [1, 2, 4, 3] \<and>
      np_fft (snd (hd cols)) = Inr fy \<and> map cabs fy = magnitudes [2, 1, 1, 5])"
proof -
  have nc: "\<not> is_constant [1, 2, 4, 3 :: real]" "\<not> is_constant [2, 1, 1, 5 :: real]"
    by (simp_all add: is_constant_def)
  have "\<exists>res. fst (ebisuzaki toy [1, 2, 4, 3] [2, 1, 1, 5] (1 / 20) 3 (Some 1) world0) = Inr res"
    using cv_index_range [of 3 "1 / 20"]
    by (intro ebisuzaki_returns) (simp_all add: supported_def)
  then obtain F rSim r_real where
    r: "fst (ebisuzaki toy [1, 2, 4, 3] [2, 1, 1, 5] (1 / 20) 3 (Some 1) world0)
          = Inr (F, rSim, r_real)"
    by (metis prod_cases3)
  from surrogate_spectrum_preserved [OF r nc] obtain cols g where
    c: "surrogates toy (length [1, 2, 4, 3 :: real]) (magnitudes [1, 2, 4, 3])
          (magnitudes [2, 1, 1, 5]) (nat 3) (rng (np_random_seed toy (Some 1) world0))
          = (Inr cols, g)"
       "length cols = nat 3"
       "\<forall>c \<in> set cols. \<exists>fx fy.
              np_fft (fst c) = Inr fx \<and> map cabs fx = magnitudes [1, 2, 4, 3] \<and>
              np_fft (snd c) = Inr fy \<and> map cabs fy = magnitudes [2, 1, 1, 5] \<and>
              zscore (fst c) = fst c \<and> zscore (snd c) = snd c"
    by blast
  from c(2) have "hd cols \<in> set cols" by (cases cols) auto
  with c(3) obtain fx fy where
    "np_fft (fst (hd cols)) = Inr fx" "map cabs fx = magnitudes [1, 2, 4, 3]"
    "np_fft (snd (hd cols)) = Inr fy" "map cabs fy = magnitudes [2, 1, 1, 5]"
    by blast
  with nc r c(1,2) show ?thesis by blast
qed

text \<open>
  Where no operation overflows, as in this model, the correlations of the surrogates of
  two series that are not constant are finite numbers.
\<close>

lemma correlations_finite:
  assumes "fst (ebisuzaki R x0 y0 level nsim seed w0) = Inr (F, rSim, r_real)"
    and nc: "\<not> is_constant x0" "\<not> is_constant y0"
  shows "\<forall>r \<in> set rSim. \<exists>v. r = Fin v \<and> - 1 \<le> v \<and> v \<le> 1"
proof
  from assms(1) obtain cols where len: "length x0 = length y0"
    and sup: "supported (length x0)"
    and cols: "\<forall>c \<in> set cols. \<exists>px py. length px = length x0 div 2 - 1 \<and>
        length py = length x0 div 2 - 1 \<and>
        c = (surrogate (length x0) (magnitudes x0) px, surrogate (length x0) (magnitudes y0) py)"
    and rs: "rSim = correlations cols"
    by (rule ebisuzaki_InrD)
  fix r assume "r \<in> set rSim"
  then obtain c where c: "c \<in> set cols" "r = corrcoef (zscore (fst c)) (zscore (snd c))"
    unfolding rs correlations_def by auto
  from cols c(1) obtain px py where p: "length px = length x0 div 2 - 1"
      "length py = length y0 div 2 - 1"
      "c = (surrogate (length x0) (magnitudes x0) px, surrogate (length y0) (magnitudes y0) py)"
    using len by auto
  from surrogate_nonconstant [OF sup _ p(1)] nc obtain Sx where
    x: "surrogate (length x0) (magnitudes x0) px = map Fin Sx" "standard Sx"
       "length Sx = length x0"
    by blast
  from surrogate_nonconstant [OF sup [unfolded len] _ p(2)] nc obtain Sy where
    y: "surrogate (length y0) (magnitudes y0) py = map Fin Sy" "standard Sy"
       "length Sy = length y0"
    by blast
  have l2: "2 \<le> length Sx" using x(3) supported_pos [OF sup] by simp
  have ls: "length Sx = length Sy" using x(3) y(3) len by simp
  have "r = corrcoef (zscore (map Fin Sx)) (zscore (map Fin Sy))"
    by (simp only: c(2) p(3) fst_conv snd_conv x(1) y(1))
  also have "\<dots> = corrcoef (map Fin Sx) (map Fin Sy)"
    by (simp only: zscore_standard [OF x(2)] zscore_standard [OF y(2)])
  finally show "\<exists>v. r = Fin v \<and> - 1 \<le> v \<and> v \<le> 1"
    using corrcoef_standard [OF x(2) y(2) ls l2] by simp
qed







section \<open>The critical value\<close>

lemma exceed_finite_part:
  "length (filter (\<lambda>a. fgt a (Fin c)) xs) = length (filter (\<lambda>r. c < r) (finite_part xs))"
  by (induction xs) (auto simp: finite_part_def split: float64.splits)

lemma length_finite_part: "length (finite_part xs) \<le> length xs"
  by (induction xs) (auto simp: finite_part_def split: float64.splits)

lemma sorted_exceed:
  fixes ys :: "real list"
  assumes "sorted ys" "k < length ys"
  shows "length (filter (\<lambda>a. ys ! k < a) ys) \<le> length ys - Suc k"
proof -
  have "\<forall>a \<in> set (take (Suc k) ys). \<not> ys ! k < a"
  proof
    fix a assume "a \<in> set (take (Suc k) ys)"
    then obtain i where i: "i < Suc k" "i < length ys" "a = ys ! i"
      by (auto simp: in_set_conv_nth)
    then have "ys ! i \<le> ys ! k" using assms by (intro sorted_nth_mono) auto
    with i show "\<not> ys ! k < a" by simp
  qed
  then have "filter (\<lambda>a. ys ! k < a) (take (Suc k) ys) = []" by (simp add: filter_empty_conv)
  then have "filter (\<lambda>a. ys ! k < a) ys = filter (\<lambda>a. ys ! k < a) (drop (Suc k) ys)"
    using filter_append [of "\<lambda>a. ys ! k < a" "take (Suc k) ys" "drop (Suc k) ys"] by simp
  then have "length (filter (\<lambda>a. ys ! k < a) ys) \<le> length (drop (Suc k) ys)"
    by (simp only: length_filter_le)
  then show ?thesis by simp
qed

lemma np_sort_nth_Fin:
  assumes "k < length xs" "np_sort xs ! k = Fin c"
  shows "k < length (finite_part xs) \<and> c = sort (finite_part xs) ! k"
proof (cases "k < length (finite_part xs)")
  case True
  then have "np_sort xs ! k = Fin (sort (finite_part xs) ! k)"
    by (simp add: np_sort_def nth_append)
  with assms(2) True show ?thesis by simp
next
  case False
  then have "np_sort xs ! k
      = filter (\<lambda>a. a = NaN) xs ! (k - length (finite_part xs))"
    by (simp add: np_sort_def nth_append)
  moreover have "k - length (finite_part xs) < length (filter (\<lambda>a. a = NaN) xs)"
    using assms(1) False length_np_sort [of xs]
    by (simp add: np_sort_def)
  ultimately have "np_sort xs ! k \<in> set (filter (\<lambda>a. a = NaN) xs)"
    by (metis nth_mem)
  with assms(2) show ?thesis by simp
qed

text \<open>How many elements of an array exceed the element at one place of the sorted array.\<close>

lemma exceed_sorted:
  assumes "k < length xs"
  shows "length (filter (\<lambda>a. fgt a (np_sort xs ! k)) xs) \<le> length xs - Suc k"
proof (cases "np_sort xs ! k")
  case NaN
  then show ?thesis by simp
next
  case (Fin c)
  from np_sort_nth_Fin [OF assms Fin] have k: "k < length (finite_part xs)"
    and c: "c = sort (finite_part xs) ! k"
    by simp_all
  have "length (filter (\<lambda>a. fgt a (Fin c)) xs)
      = length (filter (\<lambda>r. c < r) (finite_part xs))"
    by (rule exceed_finite_part)
  also have "\<dots> = length (sort (filter (\<lambda>r. c < r) (finite_part xs)))" by simp
  also have "\<dots> = length (filter (\<lambda>r. c < r) (sort (finite_part xs)))"
    by (simp only: filter_sort)
  also have "\<dots> \<le> length (sort (finite_part xs)) - Suc k"
    unfolding c using k by (intro sorted_exceed) simp_all
  also have "\<dots> \<le> length xs - Suc k"
    using length_finite_part [of xs] by simp
  finally show ?thesis by (simp add: Fin)
qed

lemma stdout_np_random_seed [simp]: "stdout (np_random_seed R seed w) = stdout w"
  by (simp add: np_random_seed_def split: option.splits prod.splits)

lemma getitem_nonneg:
  "0 \<le> i \<Longrightarrow> i < int (length xs) \<Longrightarrow> getitem xs i = Inr (xs ! nat i)"
  by (simp add: getitem_def)

text \<open>
  C2, as the code has it. In a call that returns, the critical value \<open>cv\<close> is the element
  of the ascending sort of \<open>|rSim|\<close> at the index \<open>int(nsim * (1 - level))\<close>, the product
  of the float arithmetic cut off towards zero (a negative index counts from the end).
  When that index \<open>k\<close> is not negative, at most \<open>nsim - 1 - k\<close> of the \<open>nsim\<close> surrogate
  correlations exceed \<open>cv\<close> in absolute value; it is not negative for \<open>nsim\<close> below
  \<open>2 ^ 53\<close> and a level from \<open>2 ^ - 50\<close> to 1. The critical value is printed, in the second
  of the three report lines, and the call returns the tuple \<open>(F, rSim, r_real)\<close>, of
  which \<open>cv\<close> is no part.
\<close>

theorem ebisuzaki_critical_value:
  assumes "ebisuzaki R x0 y0 level nsim seed w0 = (Inr (F, rSim, r_real), w')"
  shows "\<exists>cv. getitem (np_sort (map fabs rSim)) (cv_index nsim level) = Inr cv \<and>
           stdout w' = stdout w0 @
             [Text ''---'',
              Report ''Observed correlation coefficient: r = '' r_real,
              Report ''Critical R Value: r = '' cv,
              Report ''Fraction of coefficients larger than observed: '' F] \<and>
           (0 \<le> cv_index nsim level \<longrightarrow>
              cv = np_sort (map fabs rSim) ! nat (cv_index nsim level) \<and>
              int (card {i. i < length rSim \<and> fgt (fabs (rSim ! i)) cv})
                \<le> nsim - 1 - cv_index nsim level) \<and>
           (nsim < 2 ^ 53 \<and> 1 / 2 ^ 50 \<le> level \<and> level \<le> 1 \<longrightarrow> 0 \<le> cv_index nsim level)"
proof -
  from assms have "fst (ebisuzaki R x0 y0 level nsim seed w0) = Inr (F, rSim, r_real)" by simp
  then obtain cols g cv where ns: "0 < nsim" and lc: "length cols = nat nsim"
    and rs: "rSim = correlations cols"
    and cv: "getitem (np_sort (map fabs rSim)) (cv_index nsim level) = Inr cv"
    and w: "snd (ebisuzaki R x0 y0 level nsim seed w0) = (np_random_seed R seed w0)\<lparr>rng := g,
        stdout := stdout (np_random_seed R seed w0) @ report r_real cv F\<rparr>"
    by (rule ebisuzaki_InrD)
  have out: "stdout w' = stdout w0 @ report r_real cv F" using w assms by simp
  have len: "length rSim = nat nsim" using rs lc by simp
  have crit: "cv = np_sort (map fabs rSim) ! nat (cv_index nsim level) \<and>
       int (card {i. i < length rSim \<and> fgt (fabs (rSim ! i)) cv})
         \<le> nsim - 1 - cv_index nsim level"
    if nn: "0 \<le> cv_index nsim level"
  proof -
    define k where "k = nat (cv_index nsim level)"
    have pi: "cv_index nsim level = int k" using nn by (simp add: k_def)
    have "\<exists>v. getitem (np_sort (map fabs rSim)) (cv_index nsim level) = Inr v"
      using cv by blast
    then have "int k < int (length (np_sort (map fabs rSim)))"
      unfolding getitem_Inr_iff pi by simp
    then have kl: "k < length (map fabs rSim)" by simp
    have cvk: "cv = np_sort (map fabs rSim) ! k"
      using cv kl by (simp add: pi getitem_nonneg)
    have "card {i. i < length rSim \<and> fgt (fabs (rSim ! i)) cv}
        = length (filter (\<lambda>r. fgt (fabs r) cv) rSim)"
      by (simp add: length_filter_conv_card)
    also have "\<dots> = length (filter (\<lambda>a. fgt a cv) (map fabs rSim))"
      by (simp add: filter_map comp_def)
    also have "\<dots> \<le> length (map fabs rSim) - Suc k"
      unfolding cvk by (rule exceed_sorted [OF kl])
    finally have "card {i. i < length rSim \<and> fgt (fabs (rSim ! i)) cv} + Suc k \<le> nat nsim"
      using kl len by simp
    then have "int (card {i. i < length rSim \<and> fgt (fabs (rSim ! i)) cv})
        \<le> nsim - 1 - int k"
      using ns by linarith
    with cvk show ?thesis by (simp add: pi)
  qed
  have dom: "0 \<le> cv_index nsim level" if "nsim < 2 ^ 53" "1 / 2 ^ 50 \<le> level" "level \<le> 1"
    using cv_index_range(1) [OF ns that] .
  from cv out crit dom show ?thesis by (auto simp: report_def)
qed


section \<open>A worked example of length four\<close>

text \<open>
  The series \<open>[1, 1/3, -5/3, 1/3]\<close> and \<open>[1/3, 1, 1/3, -5/3]\<close> are standardised
  already and have the correlation \<open>-1/9\<close>; the transforms of both have the magnitudes
  \<open>[0, 8/3, 4/3, 8/3]\<close>. With the phases \<open>pi / 2\<close> for
  \<open>x\<close> and \<open>- pi / 2\<close> for \<open>y\<close> the surrogates are \<open>[1/3, -5/3, 1/3, 1]\<close> and
  \<open>[1/3, 1, 1/3, -5/3]\<close>, whose correlation is \<open>-7/9\<close>.
\<close>

lemma cis_quarter: "cis (real k * (pi / 2)) = \<i> ^ k" "cis (- (real k * (pi / 2))) = (- \<i>) ^ k"
proof -
  show "cis (real k * (pi / 2)) = \<i> ^ k" using DeMoivre [of "pi / 2" k] by simp
  show "cis (- (real k * (pi / 2))) = (- \<i>) ^ k" using DeMoivre [of "- (pi / 2)" k] by simp
qed

lemma cis_values:
  "cis (pi * 3 / 2) = - \<i>" "cis (- (pi * 3 / 2)) = \<i>"
  "cis (- pi) = - 1"
  "cis (3 * pi) = - 1" "cis (pi * 3) = - 1" "cis (- (3 * pi)) = - 1" "cis (- (pi * 3)) = - 1"
  "cis (pi * 2) = 1" "cis (- (pi * 2)) = 1"
  "cis (pi * 9 / 2) = \<i>" "cis (- (pi * 9 / 2)) = - \<i>"
  using cis_quarter [of 3] cis_quarter [of 2] cis_quarter [of 6] cis_quarter [of 4] cis_quarter [of 9]
  by (simp_all add: eval_nat_numeral algebra_simps)

lemma dft_four: "dft [a, b, c, d] = [a + b + c + d, a - \<i> * b - c + \<i> * d, a - b + c - d, a + \<i> * b - c - \<i> * d]"
  by (simp add: dft_def eval_nat_numeral lessThan_Suc upt_rec cis_values algebra_simps)

lemma idft_four: "idft [a, b, c, d] = [(a + b + c + d) / 4, (a + \<i> * b - c - \<i> * d) / 4, (a - b + c - d) / 4, (a - \<i> * b - c + \<i> * d)/4]"
  by (simp add: idft_def eval_nat_numeral lessThan_Suc upt_rec cis_values algebra_simps add_divide_distrib diff_divide_distrib)

lemma example_standard:
  "standard [1, 1 / 3, - (5 / 3), 1 / 3]" "standard [1 / 3, 1, 1 / 3, - (5 / 3)]"
  "standard [1 / 3, - (5 / 3), 1 / 3, 1]"
  by (simp_all add: standard_def eval_nat_numeral lessThan_Suc power2_eq_square)

lemma example_magnitudes:
  "magnitudes [1, 1 / 3, - (5 / 3), 1 / 3] = [Fin 0, Fin (8 / 3), Fin (4 / 3), Fin (8 / 3)]"
  "magnitudes [1 / 3, 1, 1 / 3, - (5 / 3)] = [Fin 0, Fin (8 / 3), Fin (4 / 3), Fin (8 / 3)]"
  using zscore_standard [OF example_standard(1)] zscore_standard [OF example_standard(2)]
  by (simp_all add: magnitudes_def np_fft_def dft_four)


lemma example_uniform:
  "even g \<Longrightarrow> np_random_uniform toy (- pi) pi 1 g = Inr ([pi / 2], Suc g)"
  "odd g \<Longrightarrow> np_random_uniform toy (- pi) pi 1 g = Inr ([- (pi / 2)], Suc g)"
  by (simp_all add: np_random_uniform_def field_simps)

lemma example_surrogate_pair:
  "even g \<Longrightarrow>
   surrogate_pair toy 4 [Fin 0, Fin (8 / 3), Fin (4 / 3), Fin (8 / 3)]
       [Fin 0, Fin (8 / 3), Fin (4 / 3), Fin (8 / 3)] g
     = (Inr (map Fin [1 / 3, - (5 / 3), 1 / 3, 1], map Fin [1 / 3, 1, 1 / 3, - (5 / 3)]),
        Suc (Suc g))"
  by (simp add: surrogate_pair_def example_uniform phases_full_def expj_def
        np_multiply_def np_ifft_def idft_four)

lemma sqrt_sqrt_assoc: "0 \<le> c \<Longrightarrow> x * sqrt c * sqrt c = x * c"
  by (simp add: mult.assoc)

lemma example_zscore:
  "zscore [Fin 1, Fin (1 / 3), Fin (- (5 / 3)), Fin (1 / 3)]
     = [Fin 1, Fin (1 / 3), Fin (- (5 / 3)), Fin (1 / 3)]"
  "zscore [Fin (1 / 3), Fin 1, Fin (1 / 3), Fin (- (5 / 3))]
     = [Fin (1 / 3), Fin 1, Fin (1 / 3), Fin (- (5 / 3))]"
  "zscore [Fin (1 / 3), Fin (- (5 / 3)), Fin (1 / 3), Fin 1]
     = [Fin (1 / 3), Fin (- (5 / 3)), Fin (1 / 3), Fin 1]"
  using zscore_standard [OF example_standard(1)] zscore_standard [OF example_standard(2)]
    zscore_standard [OF example_standard(3)]
  by simp_all

lemma example_corrcoef:
  "corrcoef [Fin 1, Fin (1 / 3), Fin (- (5 / 3)), Fin (1 / 3)]
     [Fin (1 / 3), Fin 1, Fin (1 / 3), Fin (- (5 / 3))] = Fin (- (1 / 9))"
  "corrcoef [Fin (1 / 3), Fin (- (5 / 3)), Fin (1 / 3), Fin 1]
     [Fin (1 / 3), Fin 1, Fin (1 / 3), Fin (- (5 / 3))] = Fin (- (7 / 9))"
  by (simp_all add: corrcoef_def np_mean_def sqrt_sqrt_assoc)

lemma example_surrogates:
  "even g \<Longrightarrow>
   surrogates toy (length [1, 1 / 3, - (5 / 3), 1 / 3 :: real])
       (magnitudes [1, 1 / 3, - (5 / 3), 1 / 3]) (magnitudes [1 / 3, 1, 1 / 3, - (5 / 3)])
       (nat 1) g
     = (Inr [([Fin (1 / 3), Fin (- (5 / 3)), Fin (1 / 3), Fin 1],
              [Fin (1 / 3), Fin 1, Fin (1 / 3), Fin (- (5 / 3))])],
        Suc (Suc g))"
  using example_surrogate_pair [of g] by (simp add: example_magnitudes eval_nat_numeral)

lemma example_correlations:
  "correlations [([Fin (1 / 3), Fin (- (5 / 3)), Fin (1 / 3), Fin 1],
                  [Fin (1 / 3), Fin 1, Fin (1 / 3), Fin (- (5 / 3))])]
     = [Fin (- (7 / 9))]"
  by (simp add: correlations_def example_zscore example_corrcoef)

lemma example_call:
  "ebisuzaki toy [1, 1 / 3, - (5 / 3), 1 / 3] [1 / 3, 1, 1 / 3, - (5 / 3)] (1 / 20) 1
       None world0
     = (Inr (Fin 1, [Fin (- (7 / 9))], Fin (- (1 / 9))),
        \<lparr>rng = 102, entropy = 101, stdout = report (Fin (- (1 / 9))) (Fin (7 / 9)) (Fin 1)\<rparr>)"
proof -
  have g: "even (rng (np_random_seed toy None world0))"
    by (simp add: np_random_seed_def world0_def)
  note e = ebisuzaki_eq [OF _ _ _ example_surrogates [OF g], of "1 / 20"]
  show ?thesis
    by (subst e)
       (simp_all add: Let_def example_correlations example_zscore example_corrcoef count_larger_def np_sort_def
          finite_part_def
          cv_index_example getitem_def np_random_seed_def world0_def)
qed

text \<open>
  C2 as stated fails: in this call the critical value is \<open>7/9\<close>; it is printed, and the
  tuple that the call returns is \<open>(1, [-7/9], -1/9)\<close>, in which it does not occur.
\<close>

theorem critical_value_only_printed:
  "ebisuzaki toy [1, 1 / 3, - (5 / 3), 1 / 3] [1 / 3, 1, 1 / 3, - (5 / 3)] (1 / 20) 1
       None world0
     = (Inr (Fin 1, [Fin (- (7 / 9))], Fin (- (1 / 9))),
        \<lparr>rng = 102, entropy = 101,
         stdout = [Text ''---'',
                   Report ''Observed correlation coefficient: r = '' (Fin (- (1 / 9))),
                   Report ''Critical R Value: r = '' (Fin (7 / 9)),
                   Report ''Fraction of coefficients larger than observed: '' (Fin 1)]\<rparr>)
   \<and> Fin (7 / 9) \<notin> {Fin 1, Fin (- (1 / 9))} \<union> set [Fin (- (7 / 9))]"
  by (simp add: example_call report_def)

theorem ebisuzaki_critical_value_witness:
  "ebisuzaki toy [1, 1 / 3, - (5 / 3), 1 / 3] [1 / 3, 1, 1 / 3, - (5 / 3)] (1 / 20) 1
       None world0
     = (Inr (Fin 1, [Fin (- (7 / 9))], Fin (- (1 / 9))),
        \<lparr>rng = 102, entropy = 101, stdout = report (Fin (- (1 / 9))) (Fin (7 / 9)) (Fin 1)\<rparr>)
   \<and> (1::int) < 2 ^ 53 \<and> (1 / 2 ^ 50 :: real) \<le> 1 / 20 \<and> (1 / 20 :: real) \<le> 1
   \<and> 0 \<le> cv_index 1 (1 / 20)
   \<and> getitem (np_sort (map fabs [Fin (- (7 / 9))])) (cv_index 1 (1 / 20)) = Inr (Fin (7 / 9))
   \<and> Fin (7 / 9) = np_sort (map fabs [Fin (- (7 / 9))]) ! nat (cv_index 1 (1 / 20))
   \<and> int (card {i. i < length [Fin (- (7 / 9))]
                  \<and> fgt (fabs ([Fin (- (7 / 9))] ! i)) (Fin (7 / 9))})
       \<le> 1 - 1 - cv_index 1 (1 / 20)"
proof -
  have g: "getitem (np_sort (map fabs [Fin (- (7 / 9))])) (cv_index 1 (1 / 20))
      = Inr (Fin (7 / 9))"
    by (simp add: np_sort_def finite_part_def cv_index_example getitem_def)
  from ebisuzaki_critical_value [OF example_call] g show ?thesis
    by (simp add: example_call)
qed


text \<open>The p-value of the worked example: the one surrogate correlation exceeds \<open>1/9\<close>.\<close>

theorem ebisuzaki_p_value_witness:
  "fst (ebisuzaki toy [1, 1 / 3, - (5 / 3), 1 / 3] [1 / 3, 1, 1 / 3, - (5 / 3)] (1 / 20) 1
       None world0) = Inr (Fin 1, [Fin (- (7 / 9))], Fin (- (1 / 9))) \<and>
   (0::int) < 1 \<and> length [Fin (- (7 / 9))] = nat 1 \<and>
   Fin 1 = Fin (real (card {i. i < length [Fin (- (7 / 9))]
                  \<and> fgt (fabs ([Fin (- (7 / 9))] ! i)) (fabs (Fin (- (1 / 9))))})
                 / real_of_int 1) \<and>
   length [1, 1 / 3, - (5 / 3), 1 / 3 :: real] = length [1 / 3, 1, 1 / 3, - (5 / 3) :: real] \<and>
   supported (length [1, 1 / 3, - (5 / 3), 1 / 3 :: real]) \<and> (1::int) < 2 ^ 53 \<and>
   (1 / 2 ^ 50 :: real) \<le> 1 / 20 \<and> (1 / 20 :: real) \<le> 1 \<and>
   (\<exists>F rSim r_real.
      fst (ebisuzaki toy [1, 1 / 3, - (5 / 3), 1 / 3] [1 / 3, 1, 1 / 3, - (5 / 3)] (1 / 20) 1
        None world0) = Inr (F, rSim, r_real))"
  using ebisuzaki_p_value [where R = toy and ?x0.0 = "[1, 1 / 3, - (5 / 3), 1 / 3]"
      and ?y0.0 = "[1 / 3, 1, 1 / 3, - (5 / 3)]"
      and level = "1 / 20" and nsim = 1 and seed = None and ?w0.0 = world0 and F = "Fin 1"
      and rSim = "[Fin (- (7 / 9))]" and r_real = "Fin (- (1 / 9))"]
  by (simp add: example_call supported_def)

end
